theory Spec2Isabelle
  imports Main "HOL-Library.Sublist"
begin

section \<open>Data: JSON values, HTTP responses, exceptions\<close>

text \<open>
  The program is \<^verbatim>\<open>src/elastic/workday-es.py\<close>. Every value it handles comes out of
  \<^verbatim>\<open>json.load\<close> or \<^verbatim>\<open>response.json()\<close>, so values are JSON values as Python holds
  them: \<^verbatim>\<open>None\<close>, \<^verbatim>\<open>bool\<close>, \<^verbatim>\<open>int\<close>, \<^verbatim>\<open>float\<close>, \<^verbatim>\<open>str\<close>, \<^verbatim>\<open>list\<close>, \<^verbatim>\<open>dict\<close>.
  A float is kept as mantissa and binary exponent (or infinity, or NaN, which Python's
  decoder accepts); the program only ever tests a float for being zero.
  Python's \<^verbatim>\<open>None\<close> is \<open>JNull\<close>: a function that ends in \<^verbatim>\<open>return None\<close> returns \<open>JNull\<close>.
\<close>

datatype pyfloat = FFinite int int | FInfinite bool | FNaN

datatype json =
    JNull
  | JBool bool
  | JInt int
  | JFloat pyfloat
  | JString string
  | JArray "json list"
  | JObject "(string \<times> json) list"

text \<open>Python truthiness (\<^verbatim>\<open>if x:\<close>, \<^verbatim>\<open>all([...])\<close>) of such a value.\<close>

fun float_truthy :: "pyfloat \<Rightarrow> bool" where
  "float_truthy (FFinite m e) = (m \<noteq> 0)"
| "float_truthy (FInfinite s) = True"
| "float_truthy FNaN = True"

fun truthy :: "json \<Rightarrow> bool" where
  "truthy JNull = False"
| "truthy (JBool b) = b"
| "truthy (JInt i) = (i \<noteq> 0)"
| "truthy (JFloat f) = float_truthy f"
| "truthy (JString s) = (s \<noteq> [])"
| "truthy (JArray xs) = (xs \<noteq> [])"
| "truthy (JObject kvs) = (kvs \<noteq> [])"

text \<open>
  What \<^verbatim>\<open>response.json()\<close> does is the server's and the library's business: it yields a
  value, or the body is no JSON and it raises. Which exception it raises depends on the
  installed \<^verbatim>\<open>requests\<close> (not pinned by the repository): from 2.27 on a
  \<^verbatim>\<open>requests.exceptions.JSONDecodeError\<close>, which is a \<^verbatim>\<open>RequestException\<close> with no response
  attached; before that a plain \<^verbatim>\<open>ValueError\<close>. Both are kept.
\<close>

datatype json_outcome = Decodes json | DecodeFailsRequestException | DecodeFailsValueError

record response =
  status_code :: int
  content :: string
  json_result :: json_outcome

text \<open>
  Exceptions. \<open>RequestException name r\<close> is any subclass of
  \<^verbatim>\<open>requests.exceptions.RequestException\<close> (\<open>name\<close> its class) with its \<^verbatim>\<open>response\<close>
  attribute \<open>r\<close> (\<^verbatim>\<open>None\<close> when there is none). \<open>SystemExit\<close> is what \<^verbatim>\<open>sys.exit\<close>
  raises; it derives from \<^verbatim>\<open>BaseException\<close>, not from \<^verbatim>\<open>Exception\<close>.
\<close>

datatype pyexc =
    RequestException string "response option"
  | KeyError string
  | TypeError string
  | AttributeError string
  | ValueError string
  | OtherException string
  | SystemExit int

fun is_RequestException :: "pyexc \<Rightarrow> bool" where
  "is_RequestException (RequestException n r) = True"
| "is_RequestException e = False"

fun is_Exception :: "pyexc \<Rightarrow> bool" where
  "is_Exception (SystemExit n) = False"
| "is_Exception e = True"

text \<open>The exit status of the process when exception \<open>e\<close> reaches the top level.\<close>

fun exit_status :: "pyexc \<Rightarrow> int" where
  "exit_status (SystemExit n) = n"
| "exit_status e = 1"

text \<open>
  \<^verbatim>\<open>response.raise_for_status()\<close> raises \<^verbatim>\<open>HTTPError(response=self)\<close> for a status from
  400 to 599 and returns otherwise. \<^verbatim>\<open>Response.__bool__\<close> returns \<^verbatim>\<open>self.ok\<close>, which is
  true exactly when \<^verbatim>\<open>raise_for_status\<close> does not raise: a response is truthy iff its
  status is not a 4xx or 5xx one.
\<close>

definition is_error_status :: "int \<Rightarrow> bool" where
  "is_error_status s = (400 \<le> s \<and> s < 600)"

definition raise_for_status :: "response \<Rightarrow> pyexc + unit" where
  "raise_for_status r =
     (if is_error_status (status_code r) then Inl (RequestException ''HTTPError'' (Some r))
      else Inr ())"

definition response_bool :: "response \<Rightarrow> bool" where
  "response_bool r = (\<not> is_error_status (status_code r))"

definition response_json :: "response \<Rightarrow> pyexc + json" where
  "response_json r =
     (case json_result r of
        Decodes j \<Rightarrow> Inr j
      | DecodeFailsRequestException \<Rightarrow> Inl (RequestException ''JSONDecodeError'' None)
      | DecodeFailsValueError \<Rightarrow> Inl (ValueError ''JSONDecodeError''))"

text \<open>
  The three operations the program applies to a JSON value, with the exception Python
  raises where the value's type does not have the operation:
  \<^verbatim>\<open>x.get(key)\<close> (only a dict has \<^verbatim>\<open>get\<close>), \<^verbatim>\<open>key in x\<close> (key membership in a dict,
  element membership in a list, substring test in a str, \<^verbatim>\<open>TypeError\<close> otherwise) and
  \<^verbatim>\<open>x[key]\<close> with a str key (\<^verbatim>\<open>KeyError\<close> for a dict without it, \<^verbatim>\<open>TypeError\<close> for
  every other type).
\<close>

fun dict_get :: "json \<Rightarrow> string \<Rightarrow> pyexc + json" where
  "dict_get (JObject kvs) key = Inr (case map_of kvs key of None \<Rightarrow> JNull | Some v \<Rightarrow> v)"
| "dict_get x key = Inl (AttributeError ''get'')"

fun contains :: "json \<Rightarrow> string \<Rightarrow> pyexc + bool" where
  "contains (JObject kvs) key = Inr (map_of kvs key \<noteq> None)"
| "contains (JArray xs) key = Inr (JString key \<in> set xs)"
| "contains (JString s) key = Inr (sublist key s)"
| "contains x key = Inl (TypeError ''not iterable'')"

fun subscript :: "json \<Rightarrow> string \<Rightarrow> pyexc + json" where
  "subscript (JObject kvs) key =
     (case map_of kvs key of None \<Rightarrow> Inl (KeyError key) | Some v \<Rightarrow> Inr v)"
| "subscript x key = Inl (TypeError ''subscript'')"

text \<open>
  \<^verbatim>\<open>all(key in workday_config for key in required_workday_keys)\<close>: the generator is
  consumed in order, stops at the first false test, and a test that raises ends it.
\<close>

fun all_contains :: "json \<Rightarrow> string list \<Rightarrow> pyexc + bool" where
  "all_contains x [] = Inr True"
| "all_contains x (key # keys) =
     (case contains x key of
        Inl e \<Rightarrow> Inl e
      | Inr b \<Rightarrow> if b then all_contains x keys else Inr False)"

section \<open>The world: what the process does and what answers it\<close>

text \<open>
  The observable actions, in order, are the trace: lines printed to standard output, log
  records, calls of \<^verbatim>\<open>time.sleep\<close>, and the two HTTP requests. A log message built by an
  f-string keeps its parts: \<open>TextExc p e\<close> is \<^verbatim>\<open>f'{p}{e}'\<close> for an exception \<open>e\<close>,
  \<open>TextBytes p b\<close> is \<^verbatim>\<open>f'{p}{b}'\<close> for a body \<open>b\<close>, \<open>JsonDumps d\<close> is \<^verbatim>\<open>json.dumps(d)\<close>.
  \<open>HttpGet url t\<close> is the GET whose header is \<^verbatim>\<open>Authorization: f'Bearer {t}'\<close>.
\<close>

datatype level = INFO | ERROR

datatype msg =
    Text string
  | TextExc string pyexc
  | TextBytes string string
  | JsonDumps json

datatype event =
    Print string
  | Log level msg
  | Sleep nat
  | HttpPost json "(string \<times> json) list"
  | HttpGet json json

text \<open>
  What one HTTP call does: the library raises a \<^verbatim>\<open>RequestException\<close> (connection error,
  timeout, too many redirects, ...), raises some other exception, or returns a response.
\<close>

datatype http_outcome =
    RaisesRequestException string "response option"
  | RaisesOther string
  | Returns response

fun http_result :: "http_outcome \<Rightarrow> pyexc + response" where
  "http_result (RaisesRequestException n r) = Inl (RequestException n r)"
| "http_result (RaisesOther n) = Inl (OtherException n)"
| "http_result (Returns r) = Inr r"

text \<open>
  The world is the trace so far and the environment: \<open>net\<close> answers the HTTP calls in
  the order they are made (\<open>calls\<close> counts them), \<open>can_open\<close> says which log file paths
  can be opened, and \<open>signal\<close> says when a SIGINT or SIGTERM arrives once the handlers
  are installed: \<open>Some k\<close> when \<open>k\<close> more delivery points are passed before it is
  delivered, \<open>None\<close> when none is coming.
\<close>

record world =
  trace :: "event list"
  net :: "nat \<Rightarrow> http_outcome"
  calls :: nat
  can_open :: "string \<Rightarrow> bool"
  signal :: "nat option"

text \<open>A statement of the program: it runs in a world and returns or raises.\<close>

type_synonym 'a py = "world \<Rightarrow> (pyexc + 'a) \<times> world"

definition ret :: "'a \<Rightarrow> 'a py" where
  "ret x w = (Inr x, w)"

definition raise :: "pyexc \<Rightarrow> 'a py" where
  "raise e w = (Inl e, w)"

definition lift :: "pyexc + 'a \<Rightarrow> 'a py" where
  "lift r w = (r, w)"

definition andthen :: "'a py \<Rightarrow> ('a \<Rightarrow> 'b py) \<Rightarrow> 'b py" where
  "andthen m f w = (case m w of (Inl e, w') \<Rightarrow> (Inl e, w') | (Inr x, w') \<Rightarrow> f x w')"

text \<open>\<^verbatim>\<open>try: body  except cls as e: handler(e)\<close>\<close>

definition try_except :: "'a py \<Rightarrow> (pyexc \<Rightarrow> bool) \<Rightarrow> (pyexc \<Rightarrow> 'a py) \<Rightarrow> 'a py" where
  "try_except body cls handler w =
     (case body w of
        (Inl e, w') \<Rightarrow> if cls e then handler e w' else (Inl e, w')
      | (Inr x, w') \<Rightarrow> (Inr x, w'))"

definition emit :: "event \<Rightarrow> unit py" where
  "emit ev w = (Inr (), w\<lparr>trace := trace w @ [ev]\<rparr>)"

section \<open>Signals, logging, sleeping, HTTP\<close>

text \<open>
  \<^verbatim>\<open>signal_handler\<close> (lines 40 to 42) logs and calls \<^verbatim>\<open>sys.exit(0)\<close>. Python runs it in
  the main thread, on top of whatever the program is doing, so the \<^verbatim>\<open>SystemExit\<close> it
  raises appears at that point of the program. The delivery points of the model are:
  before each log call, before and during each \<^verbatim>\<open>time.sleep\<close>, before and during each
  HTTP call. Between two of them the program only runs its own straight-line code, with
  no \<^verbatim>\<open>except\<close> clause that could tell the difference.
\<close>

definition signal_handler :: "'a py" where
  "signal_handler =
     andthen (emit (Log INFO (Text ''Received signal to terminate. Exiting gracefully...'')))
       (\<lambda>_. raise (SystemExit 0))"

definition checkpoint :: "unit py" where
  "checkpoint w =
     (case signal w of
        None \<Rightarrow> (Inr (), w)
      | Some 0 \<Rightarrow> signal_handler (w\<lparr>signal := None\<rparr>)
      | Some (Suc k) \<Rightarrow> (Inr (), w\<lparr>signal := Some k\<rparr>))"

definition logger_info :: "msg \<Rightarrow> unit py" where
  "logger_info m = andthen checkpoint (\<lambda>_. emit (Log INFO m))"

definition logger_error :: "msg \<Rightarrow> unit py" where
  "logger_error m = andthen checkpoint (\<lambda>_. emit (Log ERROR m))"

definition time_sleep :: "nat \<Rightarrow> unit py" where
  "time_sleep secs =
     andthen checkpoint (\<lambda>_. andthen (emit (Sleep secs)) (\<lambda>_. checkpoint))"

text \<open>The answer to the next HTTP call, as the environment gives it.\<close>

definition next_response :: "response py" where
  "next_response w = (http_result (net w (calls w)), w\<lparr>calls := Suc (calls w)\<rparr>)"

definition http_call :: "event \<Rightarrow> response py" where
  "http_call request =
     andthen checkpoint (\<lambda>_. andthen (emit request) (\<lambda>_.
     andthen checkpoint (\<lambda>_. next_response)))"

section \<open>The configuration and the two request functions\<close>

text \<open>
  The module-level names of lines 14 and 33 to 37. Nothing checks their types, so each
  holds whatever JSON value the configuration file gave.
\<close>

record settings =
  rest_api_endpoint :: json
  token_endpoint :: json
  client_id :: json
  client_secret :: json
  refresh_token :: json
  log_file_path :: json

text \<open>The request of lines 50 to 58 and the call that sends it.\<close>

definition token_post :: "settings \<Rightarrow> event" where
  "token_post cfg =
     HttpPost (token_endpoint cfg)
       [(''grant_type'', JString ''refresh_token''),
        (''refresh_token'', refresh_token cfg),
        (''client_id'', client_id cfg),
        (''client_secret'', client_secret cfg)]"

definition requests_post :: "settings \<Rightarrow> response py" where
  "requests_post cfg = http_call (token_post cfg)"

definition requests_get :: "settings \<Rightarrow> json \<Rightarrow> response py" where
  "requests_get cfg access_token = http_call (HttpGet (rest_api_endpoint cfg) access_token)"

text \<open>\<^verbatim>\<open>if e.response:\<close> tests the response's truth value, not its presence.\<close>

fun exc_response_truthy :: "pyexc \<Rightarrow> bool" where
  "exc_response_truthy (RequestException n (Some r)) = response_bool r"
| "exc_response_truthy e = False"

fun exc_response_content :: "pyexc \<Rightarrow> string" where
  "exc_response_content (RequestException n (Some r)) = content r"
| "exc_response_content e = []"

text \<open>\<^verbatim>\<open>get_access_token\<close>: the body of the \<^verbatim>\<open>try\<close> (lines 50 to 61).\<close>

definition token_try :: "settings \<Rightarrow> json py" where
  "token_try cfg =
     andthen (requests_post cfg) (\<lambda>response.
     andthen (lift (raise_for_status response)) (\<lambda>_.
     andthen (logger_info (Text ''Successfully obtained access token'')) (\<lambda>_.
     andthen (lift (response_json response)) (\<lambda>body.
     lift (subscript body ''access_token'')))))"

text \<open>The \<^verbatim>\<open>except requests.exceptions.RequestException as e\<close> block (lines 63 to 68).\<close>

definition token_except :: "nat \<Rightarrow> pyexc \<Rightarrow> unit py" where
  "token_except attempt e =
     andthen (logger_error (TextExc ''Error obtaining access token: '' e)) (\<lambda>_.
     andthen (if exc_response_truthy e
              then logger_error (TextBytes ''Response content: '' (exc_response_content e))
              else ret ()) (\<lambda>_.
     if attempt < 2
     then andthen (logger_info (Text ''Retrying to obtain access token...'')) (\<lambda>_. time_sleep 10)
     else ret ()))"

text \<open>
  \<^verbatim>\<open>for attempt in range(3)\<close>: a \<^verbatim>\<open>return\<close> inside the \<^verbatim>\<open>try\<close> leaves the function, a
  caught exception goes on with the next attempt, any other exception leaves the function;
  after the loop, \<^verbatim>\<open>return None\<close>.
\<close>

fun get_access_token_loop :: "settings \<Rightarrow> nat list \<Rightarrow> json py" where
  "get_access_token_loop cfg [] w = (Inr JNull, w)"
| "get_access_token_loop cfg (attempt # rest) w =
     (case token_try cfg w of
        (Inr access_token, w') \<Rightarrow> (Inr access_token, w')
      | (Inl e, w') \<Rightarrow>
          if is_RequestException e then
            (case token_except attempt e w' of
               (Inl e', w'') \<Rightarrow> (Inl e', w'')
             | (Inr u, w'') \<Rightarrow> get_access_token_loop cfg rest w'')
          else (Inl e, w'))"

definition get_access_token :: "settings \<Rightarrow> json py" where
  "get_access_token cfg = get_access_token_loop cfg [0, 1, 2]"

text \<open>\<^verbatim>\<open>fetch_workday_data\<close> (lines 71 to 88), in the same three parts.\<close>

definition fetch_try :: "settings \<Rightarrow> json \<Rightarrow> json py" where
  "fetch_try cfg access_token =
     andthen (requests_get cfg access_token) (\<lambda>response.
     andthen (lift (raise_for_status response)) (\<lambda>_.
     andthen (logger_info (Text ''Successfully fetched data from Workday'')) (\<lambda>_.
     lift (response_json response))))"

definition fetch_except :: "nat \<Rightarrow> pyexc \<Rightarrow> unit py" where
  "fetch_except attempt e =
     andthen (logger_error (TextExc ''Error fetching data from Workday: '' e)) (\<lambda>_.
     andthen (if exc_response_truthy e
              then logger_error (TextBytes ''Response content: '' (exc_response_content e))
              else ret ()) (\<lambda>_.
     if attempt < 2
     then andthen (logger_info (Text ''Retrying to fetch data from Workday...'')) (\<lambda>_. time_sleep 10)
     else ret ()))"

fun fetch_workday_data_loop :: "settings \<Rightarrow> json \<Rightarrow> nat list \<Rightarrow> json py" where
  "fetch_workday_data_loop cfg access_token [] w = (Inr JNull, w)"
| "fetch_workday_data_loop cfg access_token (attempt # rest) w =
     (case fetch_try cfg access_token w of
        (Inr data, w') \<Rightarrow> (Inr data, w')
      | (Inl e, w') \<Rightarrow>
          if is_RequestException e then
            (case fetch_except attempt e w' of
               (Inl e', w'') \<Rightarrow> (Inl e', w'')
             | (Inr u, w'') \<Rightarrow> fetch_workday_data_loop cfg access_token rest w'')
          else (Inl e, w'))"

definition fetch_workday_data :: "settings \<Rightarrow> json \<Rightarrow> json py" where
  "fetch_workday_data cfg access_token = fetch_workday_data_loop cfg access_token [0, 1, 2]"

section \<open>The cycle and the scheduler loop\<close>

definition log_data :: "json \<Rightarrow> unit py" where
  "log_data data = logger_info (JsonDumps data)"

definition main :: "settings \<Rightarrow> unit py" where
  "main cfg =
     andthen (get_access_token cfg) (\<lambda>access_token.
       if truthy access_token then
         andthen (fetch_workday_data cfg access_token) (\<lambda>data.
           if truthy data then log_data data
           else logger_error (Text ''No data fetched from Workday''))
       else logger_error (Text ''Failed to obtain access token''))"

text \<open>One turn of \<^verbatim>\<open>while True\<close> (lines 106 to 110).\<close>

definition scheduler_iteration :: "settings \<Rightarrow> unit py" where
  "scheduler_iteration cfg =
     andthen (try_except (main cfg) is_Exception
                (\<lambda>e. logger_error (TextExc ''Unexpected error: '' e)))
       (\<lambda>_. time_sleep 3600)"

text \<open>
  The loop has no exit of its own. \<open>scheduler_loop n\<close> runs at most \<open>n\<close> turns: \<open>None\<close>
  says that the loop is still running after them, \<open>Some e\<close> that exception \<open>e\<close> left the
  loop, and with it the process, in one of them.
\<close>

fun scheduler_loop :: "nat \<Rightarrow> settings \<Rightarrow> world \<Rightarrow> pyexc option \<times> world" where
  "scheduler_loop 0 cfg w = (None, w)"
| "scheduler_loop (Suc n) cfg w =
     (case scheduler_iteration cfg w of
        (Inl e, w') \<Rightarrow> (Some e, w')
      | (Inr u, w') \<Rightarrow> scheduler_loop n cfg w')"

section \<open>Startup\<close>

definition required_workday_keys :: "string list" where
  "required_workday_keys =
     [''rest_api_endpoint'', ''token_endpoint'', ''client_id'', ''client_secret'', ''refresh_token'']"

definition config_error_1 :: string where
  "config_error_1 =
     ''Configuration error: 'workday' and 'log_file_path' must be provided in config.json''"

definition config_error_2 :: string where
  "config_error_2 =
     ''Configuration error: All of ['rest_api_endpoint', 'token_endpoint', 'client_id', 'client_secret', 'refresh_token'] must be provided in 'workday' section of config.json''"

definition sys_exit :: "int \<Rightarrow> 'a py" where
  "sys_exit n = raise (SystemExit n)"

text \<open>
  \<^verbatim>\<open>TimedRotatingFileHandler(log_file_path, ...)\<close> (line 25) passes its argument through
  \<^verbatim>\<open>os.fspath\<close>, which accepts a str and raises \<^verbatim>\<open>TypeError\<close> for every other JSON value,
  and then opens the file.
\<close>

definition TimedRotatingFileHandler :: "json \<Rightarrow> unit py" where
  "TimedRotatingFileHandler path w =
     (case path of
        JString p \<Rightarrow> if can_open w p then (Inr (), w) else (Inl (OtherException ''OSError''), w)
      | _ \<Rightarrow> (Inl (TypeError ''fspath''), w))"

text \<open>
  The module level, lines 13 to 45, for the configuration \<open>config\<close> that \<^verbatim>\<open>json.load\<close>
  returned: it ends in \<^verbatim>\<open>sys.exit(1)\<close>, in an exception nobody catches, or with the
  settings the loop runs on. Signals in this phase, before the handlers are installed,
  are not modelled.
\<close>

definition startup :: "json \<Rightarrow> settings py" where
  "startup config =
     andthen (lift (dict_get config ''workday'')) (\<lambda>workday_config.
     andthen (lift (dict_get config ''log_file_path'')) (\<lambda>log_file_path.
     if \<not> (truthy workday_config \<and> truthy log_file_path) then
       andthen (emit (Print config_error_1)) (\<lambda>_. sys_exit 1)
     else
       andthen (lift (all_contains workday_config required_workday_keys)) (\<lambda>present.
       if \<not> present then
         andthen (emit (Print config_error_2)) (\<lambda>_. sys_exit 1)
       else
         andthen (TimedRotatingFileHandler log_file_path) (\<lambda>_.
         andthen (lift (subscript workday_config ''rest_api_endpoint'')) (\<lambda>v1.
         andthen (lift (subscript workday_config ''token_endpoint'')) (\<lambda>v2.
         andthen (lift (subscript workday_config ''client_id'')) (\<lambda>v3.
         andthen (lift (subscript workday_config ''client_secret'')) (\<lambda>v4.
         andthen (lift (subscript workday_config ''refresh_token'')) (\<lambda>v5.
         ret \<lparr>rest_api_endpoint = v1, token_endpoint = v2, client_id = v3,
              client_secret = v4, refresh_token = v5, log_file_path = log_file_path\<rparr>)))))))))"

text \<open>The whole process: startup, then the loop, for at most \<open>n\<close> turns.\<close>

definition process :: "nat \<Rightarrow> json \<Rightarrow> world \<Rightarrow> pyexc option \<times> world" where
  "process n config w =
     (case startup config w of
        (Inl e, w') \<Rightarrow> (Some e, w')
      | (Inr cfg, w') \<Rightarrow> scheduler_loop n cfg w')"

section \<open>Vocabulary of the properties\<close>

text \<open>
  What an attempt of a request function meets. \<open>attempt_fails\<close>: the call raises a
  \<^verbatim>\<open>RequestException\<close>, or returns a response with a 4xx or 5xx status, which
  \<^verbatim>\<open>raise_for_status\<close> turns into one. \<open>attempt_yields key out v\<close>: the call returns a 2xx
  response whose body is a JSON object that holds \<open>v\<close> under \<open>key\<close>.
\<close>

fun attempt_fails :: "http_outcome \<Rightarrow> bool" where
  "attempt_fails (RaisesRequestException n r) = True"
| "attempt_fails (RaisesOther n) = False"
| "attempt_fails (Returns r) = is_error_status (status_code r)"

fun attempt_yields :: "string \<Rightarrow> http_outcome \<Rightarrow> json \<Rightarrow> bool" where
  "attempt_yields key (Returns r) v =
     (200 \<le> status_code r \<and> status_code r < 300 \<and>
      (case json_result r of
         Decodes (JObject kvs) \<Rightarrow> map_of kvs key = Some v
       | _ \<Rightarrow> False))"
| "attempt_yields key out v = False"

text \<open>
  Kinds of events: the requests and sleeps of a trace (everything but log records and
  printed lines), the GET requests, the payload lines (\<^verbatim>\<open>log_data\<close>), the
  \<^verbatim>\<open>Response content\<close> lines. \<open>token_round cfg attempt\<close> is what attempt number \<open>attempt\<close>
  of \<^verbatim>\<open>get_access_token\<close> requests and sleeps when it fails.
\<close>

fun is_io :: "event \<Rightarrow> bool" where
  "is_io (Log l m) = False"
| "is_io (Print s) = False"
| "is_io ev = True"

fun is_get :: "event \<Rightarrow> bool" where
  "is_get (HttpGet u t) = True"
| "is_get ev = False"

fun is_payload_line :: "event \<Rightarrow> bool" where
  "is_payload_line (Log l (JsonDumps d)) = True"
| "is_payload_line ev = False"

fun is_body_line :: "event \<Rightarrow> bool" where
  "is_body_line (Log l (TextBytes p b)) = True"
| "is_body_line ev = False"

definition token_round :: "settings \<Rightarrow> nat \<Rightarrow> event list" where
  "token_round cfg attempt = token_post cfg # (if attempt < 2 then [Sleep 10] else [])"

definition shutdown_line :: event where
  "shutdown_line = Log INFO (Text ''Received signal to terminate. Exiting gracefully...'')"

text \<open>
  The events each part of a cycle can add to the trace: the log records of the two request
  functions, the events of \<^verbatim>\<open>get_access_token\<close>, of \<^verbatim>\<open>fetch_workday_data\<close>, and of
  \<^verbatim>\<open>main\<close> as a whole.
\<close>

fun request_log :: "msg \<Rightarrow> bool" where
  "request_log (Text s) =
     (s \<in> set [''Successfully obtained access token'', ''Retrying to obtain access token...'',
                ''Successfully fetched data from Workday'', ''Retrying to fetch data from Workday...''])"
| "request_log (TextExc p e) =
     (p \<in> set [''Error obtaining access token: '', ''Error fetching data from Workday: ''])"
| "request_log (TextBytes p b) = (p = ''Response content: '')"
| "request_log (JsonDumps d) = False"

fun token_event :: "event \<Rightarrow> bool" where
  "token_event (HttpPost u d) = True"
| "token_event (Sleep n) = (n = 10)"
| "token_event (Log l m) = request_log m"
| "token_event ev = False"

fun fetch_event :: "event \<Rightarrow> bool" where
  "fetch_event (HttpGet u t) = True"
| "fetch_event (Sleep n) = (n = 10)"
| "fetch_event (Log l m) = request_log m"
| "fetch_event ev = False"

fun cycle_event :: "event \<Rightarrow> bool" where
  "cycle_event (Sleep n) = (n = 10)"
| "cycle_event (Print s) = False"
| "cycle_event ev = True"

text \<open>
  Classes of exceptions: those no request function anticipates (an \<^verbatim>\<open>Exception\<close> that is
  no \<^verbatim>\<open>RequestException\<close>), none at all, any.
\<close>

definition unanticipated :: "pyexc \<Rightarrow> bool" where
  "unanticipated e = (is_Exception e \<and> \<not> is_RequestException e)"

definition never :: "pyexc \<Rightarrow> bool" where
  "never e = False"

definition anything :: "pyexc \<Rightarrow> bool" where
  "anything e = True"

text \<open>
  \<open>stays P E m\<close>: run without a signal, statement \<open>m\<close> leaves the signal state alone,
  adds to the trace only events that satisfy \<open>P\<close>, and raises only exceptions that
  satisfy \<open>E\<close>.
\<close>

definition stays :: "(event \<Rightarrow> bool) \<Rightarrow> (pyexc \<Rightarrow> bool) \<Rightarrow> 'a py \<Rightarrow> bool" where
  "stays P E m = (\<forall>w. signal w = None \<longrightarrow>
     (case m w of (r, w') \<Rightarrow>
        signal w' = None \<and> (\<exists>evs. trace w' = trace w @ evs \<and> list_all P evs)
        \<and> (\<forall>e. r = Inl e \<longrightarrow> E e)))"

text \<open>
  With a signal on its way (\<open>signal w = Some k\<close>), a statement either is cut short by the
  handler (\<open>shut_down\<close>: it raises \<^verbatim>\<open>SystemExit(0)\<close>, and the handler's line is the last of
  the trace) or goes on (\<open>went_on\<close>): it returns or raises an \<^verbatim>\<open>Exception\<close> that satisfies
  \<open>E\<close>, and the signal is still on its way, closer when \<open>strict\<close>. \<open>yields strict E m\<close>
  says that statement \<open>m\<close> does one of the two.
\<close>

definition shut_down :: "pyexc + 'a \<Rightarrow> world \<Rightarrow> bool" where
  "shut_down r w' =
     (r = Inl (SystemExit 0) \<and> signal w' = None \<and> trace w' \<noteq> [] \<and> last (trace w') = shutdown_line)"

definition went_on :: "bool \<Rightarrow> (pyexc \<Rightarrow> bool) \<Rightarrow> nat \<Rightarrow> pyexc + 'a \<Rightarrow> world \<Rightarrow> bool" where
  "went_on strict E k r w' =
     ((\<forall>e. r = Inl e \<longrightarrow> E e \<and> is_Exception e) \<and>
      (\<exists>j. signal w' = Some j \<and> j \<le> k \<and> (strict \<longrightarrow> j < k)))"

definition yields :: "bool \<Rightarrow> (pyexc \<Rightarrow> bool) \<Rightarrow> 'a py \<Rightarrow> bool" where
  "yields strict E m =
     (\<forall>w k. signal w = Some k \<longrightarrow>
        (case m w of (r, w') \<Rightarrow> shut_down r w' \<or> went_on strict E k r w'))"

text \<open>
  The same statement run twice from one world, with no signal and with a signal at delivery
  point \<open>k\<close>. Either the second run is \<open>cut\<close>: it raises \<^verbatim>\<open>SystemExit(0)\<close>, and its trace
  is a beginning of the first run's events, at most \<open>k\<close> of them, and then the handler's
  line. Or it is the \<open>same\<close>: the signal is still on its way, and nothing else differs.
  \<open>interruptible m\<close> says that every run of \<open>m\<close> is one or the other.
\<close>

definition cut :: "nat \<Rightarrow> event list \<Rightarrow> world \<Rightarrow> pyexc + 'a \<Rightarrow> world \<Rightarrow> bool" where
  "cut k evs w r' w2 =
     (r' = Inl (SystemExit 0) \<and> signal w2 = None \<and>
      (\<exists>pre. prefix pre evs \<and> length pre \<le> k \<and> trace w2 = trace w @ pre @ [shutdown_line]))"

definition same :: "nat \<Rightarrow> event list \<Rightarrow> pyexc + 'a \<Rightarrow> world \<Rightarrow> pyexc + 'a \<Rightarrow> world \<Rightarrow> bool" where
  "same k evs r w1 r' w2 =
     (r' = r \<and> (\<exists>j. length evs + j \<le> k \<and> w2 = w1\<lparr>signal := Some j\<rparr>))"

definition interruptible :: "'a py \<Rightarrow> bool" where
  "interruptible m =
     (\<forall>w k. signal w = None \<longrightarrow>
        (case m w of (r, w1) \<Rightarrow>
           case m (w\<lparr>signal := Some k\<rparr>) of (r', w2) \<Rightarrow>
             signal w1 = None \<and>
             (\<exists>evs. trace w1 = trace w @ evs \<and> (cut k evs w r' w2 \<or> same k evs r w1 r' w2))))"

section \<open>Scenarios\<close>

text \<open>
  Concrete settings and environments, on which the theorems below are run. \<open>answers\<close>
  scripts the first HTTP calls; every call after the script meets a dead connection.
\<close>

definition demo_settings :: settings where
  "demo_settings =
     \<lparr>rest_api_endpoint = JString ''https://hr.example/api'',
      token_endpoint = JString ''https://hr.example/token'',
      client_id = JString ''id'', client_secret = JString ''secret'',
      refresh_token = JString ''refresh'', log_file_path = JString ''workday.log''\<rparr>"

definition world_of :: "(nat \<Rightarrow> http_outcome) \<Rightarrow> world" where
  "world_of answer =
     \<lparr>trace = [], net = answer, calls = 0, can_open = (\<lambda>p. True), signal = None\<rparr>"

definition answers :: "http_outcome list \<Rightarrow> nat \<Rightarrow> http_outcome" where
  "answers outs i =
     (if i < length outs then outs ! i else RaisesRequestException ''ConnectionError'' None)"

definition always :: "http_outcome \<Rightarrow> nat \<Rightarrow> http_outcome" where
  "always out i = out"

definition reply :: "int \<Rightarrow> string \<Rightarrow> json_outcome \<Rightarrow> http_outcome" where
  "reply status body parsed = Returns \<lparr>status_code = status, content = body, json_result = parsed\<rparr>"

definition busy :: http_outcome where
  "busy = reply 503 ''busy'' DecodeFailsValueError"

definition token_reply :: "json \<Rightarrow> http_outcome" where
  "token_reply tok = reply 200 ''(token)'' (Decodes (JObject [(''access_token'', tok)]))"

definition data_reply :: "json \<Rightarrow> http_outcome" where
  "data_reply d = reply 200 ''(data)'' (Decodes d)"

definition employees :: json where
  "employees = JObject [(''employees'', JArray [])]"

definition world_down :: world where
  "world_down = world_of (answers [])"

definition world_flaky :: world where
  "world_flaky =
     world_of (answers [busy, busy, token_reply (JString ''third''), data_reply employees])"

definition world_good :: world where
  "world_good = world_of (answers [token_reply (JString ''t''), data_reply employees])"

definition world_empty_token :: world where
  "world_empty_token = world_of (answers [token_reply (JString '''')])"

definition world_empty_payload :: world where
  "world_empty_payload = world_of (answers [token_reply (JString ''t''), data_reply (JObject [])])"

definition world_no_key :: world where
  "world_no_key = world_of (answers [reply 200 ''{}'' (Decodes (JObject []))])"

definition response_500 :: response where
  "response_500 = \<lparr>status_code = 500, content = ''oops'', json_result = DecodeFailsValueError\<rparr>"

definition world_500 :: world where
  "world_500 = world_of (always (Returns response_500))"

definition world_signalled :: world where
  "world_signalled = world_flaky\<lparr>signal := Some 3\<rparr>"

definition config_of :: "(string \<times> json) list \<Rightarrow> json" where
  "config_of workday =
     JObject [(''workday'', JObject workday), (''log_file_path'', JString ''workday.log'')]"

definition workday_blank :: "(string \<times> json) list" where
  "workday_blank =
     [(''rest_api_endpoint'', JString ''''), (''token_endpoint'', JString ''''),
      (''client_id'', JNull), (''client_secret'', JString ''''), (''refresh_token'', JInt 0)]"

definition workday_without_secret :: "(string \<times> json) list" where
  "workday_without_secret =
     [(''rest_api_endpoint'', JString ''https://hr.example/api''),
      (''token_endpoint'', JString ''https://hr.example/token''),
      (''client_id'', JString ''id''), (''refresh_token'', JString ''refresh'')]"

section \<open>Running without a signal\<close>

lemmas scenario_defs =
  world_of_def answers_def always_def reply_def busy_def token_reply_def data_reply_def
  employees_def world_down_def world_flaky_def world_good_def world_empty_token_def
  world_empty_payload_def world_no_key_def world_500_def response_500_def
  world_signalled_def config_of_def workday_blank_def workday_without_secret_def

lemma staysI:
  assumes "\<And>w r w'. signal w = None \<Longrightarrow> m w = (r, w') \<Longrightarrow>
     signal w' = None \<and> (\<exists>evs. trace w' = trace w @ evs \<and> list_all P evs)
        \<and> (\<forall>e. r = Inl e \<longrightarrow> E e)"
  shows "stays P E m"
  unfolding stays_def
proof (intro allI impI)
  fix w :: world
  assume w: "signal w = None"
  obtain r w' where m: "m w = (r, w')" by (cases "m w")
  from assms[OF w m] show "case m w of (r, w') \<Rightarrow>
        signal w' = None \<and> (\<exists>evs. trace w' = trace w @ evs \<and> list_all P evs)
        \<and> (\<forall>e. r = Inl e \<longrightarrow> E e)"
    by (simp add: m)
qed

lemma staysD:
  assumes "stays P E m" "signal w = None" "m w = (r, w')"
  shows "signal w' = None" "\<exists>evs. trace w' = trace w @ evs \<and> list_all P evs"
    "r = Inl e \<Longrightarrow> E e"
proof -
  note assms(1)[unfolded stays_def, rule_format, OF assms(2)]
  then have *: "signal w' = None \<and> (\<exists>evs. trace w' = trace w @ evs \<and> list_all P evs)
        \<and> (\<forall>e. r = Inl e \<longrightarrow> E e)"
    by (simp add: assms(3))
  from * show "signal w' = None" by blast
  from * show "\<exists>evs. trace w' = trace w @ evs \<and> list_all P evs" by blast
  from * show "r = Inl e \<Longrightarrow> E e" by blast
qed

lemma stays_weaken:
  assumes "stays P E m" and "\<And>ev. P ev \<Longrightarrow> Q ev" and "\<And>e. E e \<Longrightarrow> F e"
  shows "stays Q F m"
proof (rule staysI)
  fix w r w'
  assume w: "signal w = None" and run: "m w = (r, w')"
  note m1 = staysD[OF assms(1) w run]
  from m1(2) obtain evs where evs: "trace w' = trace w @ evs" "list_all P evs" by blast
  from evs(2) assms(2) have "list_all Q evs" by (auto simp: list_all_iff)
  with evs(1) have "\<exists>evs. trace w' = trace w @ evs \<and> list_all Q evs" by blast
  with m1(1) m1(3) assms(3)
  show "signal w' = None \<and> (\<exists>evs. trace w' = trace w @ evs \<and> list_all Q evs)
        \<and> (\<forall>e. r = Inl e \<longrightarrow> F e)" by blast
qed

lemma checkpoint_None: "signal w = None \<Longrightarrow> checkpoint w = (Inr (), w)"
  by (simp add: checkpoint_def)

lemma stays_ret: "stays P E (ret x)"
  by (rule staysI) (auto simp: ret_def)

lemma stays_lift: "(\<And>e. r = Inl e \<Longrightarrow> E e) \<Longrightarrow> stays P E (lift r)"
  by (rule staysI) (auto simp: lift_def)

lemma stays_emit: "P ev \<Longrightarrow> stays P E (emit ev)"
  by (rule staysI) (auto simp: emit_def)

lemma stays_checkpoint: "stays P E checkpoint"
  by (rule staysI) (auto simp: checkpoint_None)

lemma stays_andthen:
  assumes "stays P E m" and "\<And>x. stays P E (f x)"
  shows "stays P E (andthen m f)"
proof (rule staysI)
  fix w r w'
  assume w: "signal w = None" and run: "andthen m f w = (r, w')"
  obtain r1 w1 where m: "m w = (r1, w1)" by (cases "m w")
  note m1 = staysD[OF assms(1) w m]
  show "signal w' = None \<and> (\<exists>evs. trace w' = trace w @ evs \<and> list_all P evs)
        \<and> (\<forall>e. r = Inl e \<longrightarrow> E e)"
  proof (cases r1)
    case (Inl e)
    with run m have "r = Inl e" "w' = w1" by (auto simp: andthen_def)
    with m1 Inl show ?thesis by auto
  next
    case (Inr x)
    with run m have f: "f x w1 = (r, w')" by (auto simp: andthen_def)
    note f1 = staysD[OF assms(2) m1(1) f]
    from m1(2) f1(2) obtain a b where "trace w1 = trace w @ a" "list_all P a"
      "trace w' = trace w1 @ b" "list_all P b" by blast
    then have "trace w' = trace w @ (a @ b) \<and> list_all P (a @ b)" by simp
    then have "\<exists>evs. trace w' = trace w @ evs \<and> list_all P evs" by blast
    with f1 show ?thesis by blast
  qed
qed

lemma stays_try_except:
  assumes "stays P E0 m" and "\<And>e. cls e \<Longrightarrow> stays P E (h e)"
    and "\<And>e. E0 e \<Longrightarrow> \<not> cls e \<Longrightarrow> E e"
  shows "stays P E (try_except m cls h)"
proof (rule staysI)
  fix w r w'
  assume w: "signal w = None" and run: "try_except m cls h w = (r, w')"
  obtain r1 w1 where m: "m w = (r1, w1)" by (cases "m w")
  note m1 = staysD[OF assms(1) w m]
  show "signal w' = None \<and> (\<exists>evs. trace w' = trace w @ evs \<and> list_all P evs)
        \<and> (\<forall>e. r = Inl e \<longrightarrow> E e)"
  proof (cases "\<exists>e. r1 = Inl e \<and> cls e")
    case False
    with run m have "r = r1" "w' = w1" by (auto simp: try_except_def split: sum.splits if_splits)
    with m1 False assms(3) show ?thesis by auto
  next
    case True
    then obtain e where e: "r1 = Inl e" "cls e" by blast
    with run m have f: "h e w1 = (r, w')" by (auto simp: try_except_def)
    note f1 = staysD[OF assms(2)[OF e(2)] m1(1) f]
    from m1(2) f1(2) obtain a b where "trace w1 = trace w @ a" "list_all P a"
      "trace w' = trace w1 @ b" "list_all P b" by blast
    then have "trace w' = trace w @ (a @ b) \<and> list_all P (a @ b)" by simp
    then have "\<exists>evs. trace w' = trace w @ evs \<and> list_all P evs" by blast
    with f1 show ?thesis by blast
  qed
qed

lemma stays_if: "stays P E a \<Longrightarrow> stays P E b \<Longrightarrow> stays P E (if c then a else b)"
  by simp

lemma stays_logger_info: "P (Log INFO m) \<Longrightarrow> stays P E (logger_info m)"
  unfolding logger_info_def by (intro stays_andthen stays_checkpoint stays_emit)

lemma stays_logger_error: "P (Log ERROR m) \<Longrightarrow> stays P E (logger_error m)"
  unfolding logger_error_def by (intro stays_andthen stays_checkpoint stays_emit)

lemma stays_time_sleep: "P (Sleep n) \<Longrightarrow> stays P E (time_sleep n)"
  unfolding time_sleep_def by (intro stays_andthen stays_checkpoint stays_emit)

lemma http_result_Exception: "http_result out = Inl e \<Longrightarrow> is_Exception e"
  by (cases out) auto

lemma stays_next_response: "stays P is_Exception next_response"
  by (rule staysI) (auto simp: next_response_def dest: http_result_Exception)

lemma stays_http_call: "P ev \<Longrightarrow> stays P is_Exception (http_call ev)"
  unfolding http_call_def
  by (intro stays_andthen stays_checkpoint stays_emit stays_next_response)

lemma raise_for_status_Exception: "raise_for_status r = Inl e \<Longrightarrow> is_Exception e"
  by (auto simp: raise_for_status_def split: if_splits)

lemma response_json_Exception: "response_json r = Inl e \<Longrightarrow> is_Exception e"
  by (auto simp: response_json_def split: json_outcome.splits)

lemma subscript_Exception: "subscript x key = Inl e \<Longrightarrow> is_Exception e"
  by (cases x) (auto split: option.splits)

lemma stays_token_try: "stays token_event is_Exception (token_try cfg)"
  unfolding token_try_def requests_post_def
  by (intro stays_andthen stays_http_call stays_lift stays_logger_info)
     (auto simp: token_post_def
       dest: raise_for_status_Exception response_json_Exception subscript_Exception)

lemma stays_token_except: "stays token_event never (token_except attempt e)"
  unfolding token_except_def
  by (intro stays_andthen stays_if stays_logger_error stays_logger_info stays_time_sleep stays_ret)
     auto

lemma stays_fetch_try: "stays fetch_event is_Exception (fetch_try cfg tok)"
  unfolding fetch_try_def requests_get_def
  by (intro stays_andthen stays_http_call stays_lift stays_logger_info)
     (auto dest: raise_for_status_Exception response_json_Exception)

lemma stays_fetch_except: "stays fetch_event never (fetch_except attempt e)"
  unfolding fetch_except_def
  by (intro stays_andthen stays_if stays_logger_error stays_logger_info stays_time_sleep stays_ret)
     auto

lemma get_access_token_loop_Cons:
  "get_access_token_loop cfg (attempt # rest) =
     try_except (token_try cfg) is_RequestException
       (\<lambda>e. andthen (token_except attempt e) (\<lambda>u. get_access_token_loop cfg rest))"
  by (rule ext) (auto simp: try_except_def andthen_def split: prod.splits sum.splits)

lemma fetch_workday_data_loop_Cons:
  "fetch_workday_data_loop cfg tok (attempt # rest) =
     try_except (fetch_try cfg tok) is_RequestException
       (\<lambda>e. andthen (fetch_except attempt e) (\<lambda>u. fetch_workday_data_loop cfg tok rest))"
  by (rule ext) (auto simp: try_except_def andthen_def split: prod.splits sum.splits)

lemma stays_Inr: "stays P E (\<lambda>w. (Inr x, w))"
  by (rule staysI) auto

lemma stays_get_access_token_loop:
  "stays token_event unanticipated (get_access_token_loop cfg attempts)"
proof (induction attempts)
  case Nil
  have "get_access_token_loop cfg [] = (\<lambda>w. (Inr JNull, w))" by (rule ext) simp
  then show ?case by (simp add: stays_Inr)
next
  case (Cons attempt rest)
  show ?case
    unfolding get_access_token_loop_Cons
  proof (rule stays_try_except[OF stays_token_try])
    fix e
    show "stays token_event unanticipated
            (andthen (token_except attempt e) (\<lambda>u. get_access_token_loop cfg rest))"
      by (intro stays_andthen Cons.IH stays_weaken[OF stays_token_except])
         (auto simp: never_def)
  next
    fix e
    assume "is_Exception e" "\<not> is_RequestException e"
    then show "unanticipated e" by (simp add: unanticipated_def)
  qed
qed

lemma stays_fetch_workday_data_loop:
  "stays fetch_event unanticipated (fetch_workday_data_loop cfg tok attempts)"
proof (induction attempts)
  case Nil
  have "fetch_workday_data_loop cfg tok [] = (\<lambda>w. (Inr JNull, w))" by (rule ext) simp
  then show ?case by (simp add: stays_Inr)
next
  case (Cons attempt rest)
  show ?case
    unfolding fetch_workday_data_loop_Cons
  proof (rule stays_try_except[OF stays_fetch_try])
    fix e
    show "stays fetch_event unanticipated
            (andthen (fetch_except attempt e) (\<lambda>u. fetch_workday_data_loop cfg tok rest))"
      by (intro stays_andthen Cons.IH stays_weaken[OF stays_fetch_except])
         (auto simp: never_def)
  next
    fix e
    assume "is_Exception e" "\<not> is_RequestException e"
    then show "unanticipated e" by (simp add: unanticipated_def)
  qed
qed

lemma stays_get_access_token: "stays token_event unanticipated (get_access_token cfg)"
  unfolding get_access_token_def by (rule stays_get_access_token_loop)

lemma stays_fetch_workday_data:
  "stays fetch_event unanticipated (fetch_workday_data cfg tok)"
  unfolding fetch_workday_data_def by (rule stays_fetch_workday_data_loop)

lemma logger_info_run:
  "signal w = None \<Longrightarrow> logger_info m w = (Inr (), w\<lparr>trace := trace w @ [Log INFO m]\<rparr>)"
  by (simp add: logger_info_def andthen_def checkpoint_def emit_def)

lemma logger_error_run:
  "signal w = None \<Longrightarrow> logger_error m w = (Inr (), w\<lparr>trace := trace w @ [Log ERROR m]\<rparr>)"
  by (simp add: logger_error_def andthen_def checkpoint_def emit_def)

lemma time_sleep_run:
  "signal w = None \<Longrightarrow> time_sleep n w = (Inr (), w\<lparr>trace := trace w @ [Sleep n]\<rparr>)"
  by (simp add: time_sleep_def andthen_def checkpoint_def emit_def)

lemma http_call_run:
  "signal w = None \<Longrightarrow>
   http_call ev w =
     (http_result (net w (calls w)), w\<lparr>trace := trace w @ [ev], calls := Suc (calls w)\<rparr>)"
  by (simp add: http_call_def andthen_def checkpoint_def emit_def next_response_def)

lemma token_try_returns:
  assumes "signal w = None" and "net w (calls w) = Returns r"
    and "\<not> is_error_status (status_code r)"
    and "json_result r = Decodes body"
  shows "token_try cfg w =
           (subscript body ''access_token'',
            w\<lparr>trace := trace w @ [token_post cfg, Log INFO (Text ''Successfully obtained access token'')],
              calls := Suc (calls w)\<rparr>)"
  using assms
  by (simp add: token_try_def requests_post_def http_call_run andthen_def lift_def
      raise_for_status_def logger_info_run response_json_def token_post_def)

lemma fetch_try_returns:
  assumes "signal w = None" and "net w (calls w) = Returns r"
    and "\<not> is_error_status (status_code r)"
    and "json_result r = Decodes body"
  shows "fetch_try cfg tok w =
           (Inr body,
            w\<lparr>trace := trace w @ [HttpGet (rest_api_endpoint cfg) tok,
                                    Log INFO (Text ''Successfully fetched data from Workday'')],
              calls := Suc (calls w)\<rparr>)"
  using assms
  by (simp add: fetch_try_def requests_get_def http_call_run andthen_def lift_def
      raise_for_status_def logger_info_run response_json_def)

lemma token_events_quiet:
  assumes "list_all token_event evs"
  shows "filter is_get evs = []" and "filter is_payload_line evs = []"
    and "Log ERROR (Text ''No data fetched from Workday'') \<notin> set evs"
proof -
  have a: "token_event ev \<Longrightarrow> \<not> is_get ev" for ev by (cases ev) auto
  have b: "token_event ev \<Longrightarrow> \<not> is_payload_line ev" for ev
    by (cases ev rule: is_payload_line.cases) auto
  have c: "\<not> token_event (Log ERROR (Text ''No data fetched from Workday''))" by simp
  from assms a show "filter is_get evs = []" by (auto simp: list_all_iff filter_empty_conv)
  from assms b show "filter is_payload_line evs = []"
    by (auto simp: list_all_iff filter_empty_conv)
  from assms c show "Log ERROR (Text ''No data fetched from Workday'') \<notin> set evs"
    by (auto simp: list_all_iff)
qed

lemma fetch_events_quiet:
  assumes "list_all fetch_event evs"
  shows "filter is_payload_line evs = []"
    and "Log ERROR (Text ''No data fetched from Workday'') \<notin> set evs"
proof -
  have b: "fetch_event ev \<Longrightarrow> \<not> is_payload_line ev" for ev
    by (cases ev rule: is_payload_line.cases) auto
  have c: "\<not> fetch_event (Log ERROR (Text ''No data fetched from Workday''))" by simp
  from assms b show "filter is_payload_line evs = []"
    by (auto simp: list_all_iff filter_empty_conv)
  from assms c show "Log ERROR (Text ''No data fetched from Workday'') \<notin> set evs"
    by (auto simp: list_all_iff)
qed

lemma token_try_fails:
  assumes "signal w = None" and "attempt_fails (net w (calls w))"
  shows "\<exists>e. is_RequestException e \<and>
           token_try cfg w = (Inl e, w\<lparr>trace := trace w @ [token_post cfg], calls := Suc (calls w)\<rparr>)"
proof (cases "net w (calls w)")
  case (RaisesRequestException n r)
  with assms(1) show ?thesis
    by (simp add: token_try_def requests_post_def http_call_run andthen_def token_post_def)
next
  case (RaisesOther n)
  with assms(2) show ?thesis by simp
next
  case (Returns r)
  with assms show ?thesis
    by (simp add: token_try_def requests_post_def http_call_run andthen_def token_post_def
        lift_def raise_for_status_def)
qed

lemma token_except_run:
  assumes "signal w = None"
  shows "\<exists>evs. token_except attempt e w = (Inr (), w\<lparr>trace := trace w @ evs\<rparr>)
           \<and> filter is_io evs = (if attempt < 2 then [Sleep 10] else [])"
proof -
  let ?first = "Log ERROR (TextExc ''Error obtaining access token: '' e)"
  let ?body = "if exc_response_truthy e
               then [Log ERROR (TextBytes ''Response content: '' (exc_response_content e))] else []"
  let ?retry = "if attempt < 2
                then [Log INFO (Text ''Retrying to obtain access token...''), Sleep 10] else []"
  have "token_except attempt e w = (Inr (), w\<lparr>trace := trace w @ (?first # ?body @ ?retry)\<rparr>)"
    using assms
    by (simp add: token_except_def andthen_def logger_error_run logger_info_run time_sleep_run
        ret_def)
  moreover have "filter is_io (?first # ?body @ ?retry) = (if attempt < 2 then [Sleep 10] else [])"
    by simp
  ultimately show ?thesis by blast
qed

lemma loop_all_fail:
  assumes "signal w = None" and "\<forall>i < length attempts. attempt_fails (net w (calls w + i))"
  shows "\<exists>evs. get_access_token_loop cfg attempts w =
                  (Inr JNull, w\<lparr>trace := trace w @ evs, calls := calls w + length attempts\<rparr>)
           \<and> filter is_io evs = concat (map (token_round cfg) attempts)"
  using assms
proof (induction attempts arbitrary: w)
  case Nil
  then show ?case by (intro exI[of _ "[]"]) simp
next
  case (Cons attempt rest)
  from Cons.prems(2) have "attempt_fails (net w (calls w))" by auto
  from token_try_fails[OF Cons.prems(1) this] obtain e where e: "is_RequestException e"
    and tr: "token_try cfg w =
      (Inl e, w\<lparr>trace := trace w @ [token_post cfg], calls := Suc (calls w)\<rparr>)" by blast
  let ?w1 = "w\<lparr>trace := trace w @ [token_post cfg], calls := Suc (calls w)\<rparr>"
  have s1: "signal ?w1 = None" using Cons.prems(1) by simp
  from token_except_run[OF s1] obtain evs where exc:
    "token_except attempt e ?w1 = (Inr (), ?w1\<lparr>trace := trace ?w1 @ evs\<rparr>)"
    and io: "filter is_io evs = (if attempt < 2 then [Sleep 10] else [])" by blast
  let ?w2 = "?w1\<lparr>trace := trace ?w1 @ evs\<rparr>"
  have s2: "signal ?w2 = None" using Cons.prems(1) by simp
  have f2: "\<forall>i < length rest. attempt_fails (net ?w2 (calls ?w2 + i))"
    using Cons.prems(2) by auto
  from Cons.IH[OF s2 f2] obtain evs' where rest:
    "get_access_token_loop cfg rest ?w2 =
       (Inr JNull, ?w2\<lparr>trace := trace ?w2 @ evs', calls := calls ?w2 + length rest\<rparr>)"
    and io': "filter is_io evs' = concat (map (token_round cfg) rest)" by blast
  have "get_access_token_loop cfg (attempt # rest) w =
          (Inr JNull, w\<lparr>trace := trace w @ (token_post cfg # evs @ evs'),
                         calls := calls w + length (attempt # rest)\<rparr>)"
    using tr e exc rest by simp
  moreover have "filter is_io (token_post cfg # evs @ evs') =
                   concat (map (token_round cfg) (attempt # rest))"
    using io io' by (simp add: token_round_def token_post_def)
  ultimately show ?case by blast
qed

lemma loop_fail_then_yield:
  assumes "signal w = None" and "k < length attempts"
    and "\<forall>i < k. attempt_fails (net w (calls w + i))"
    and "attempt_yields ''access_token'' (net w (calls w + k)) tok"
  shows "\<exists>evs. get_access_token_loop cfg attempts w =
                  (Inr tok, w\<lparr>trace := trace w @ evs, calls := calls w + Suc k\<rparr>)
           \<and> filter is_io evs = concat (map (token_round cfg) (take k attempts)) @ [token_post cfg]"
  using assms
proof (induction attempts arbitrary: w k)
  case Nil
  then show ?case by simp
next
  case (Cons attempt rest)
  show ?case
  proof (cases k)
    case 0
    with Cons.prems(4) obtain r kvs where r: "net w (calls w) = Returns r"
      "200 \<le> status_code r" "status_code r < 300" "json_result r = Decodes (JObject kvs)"
      "map_of kvs ''access_token'' = Some tok"
      by (cases "net w (calls w)") (auto split: json_outcome.splits json.splits)
    from r(2,3) have ok: "\<not> is_error_status (status_code r)" by (simp add: is_error_status_def)
    let ?evs = "[token_post cfg, Log INFO (Text ''Successfully obtained access token'')]"
    have "get_access_token_loop cfg (attempt # rest) w =
            (Inr tok, w\<lparr>trace := trace w @ ?evs, calls := calls w + Suc k\<rparr>)"
      using token_try_returns[OF Cons.prems(1) r(1) ok r(4), of cfg] r(5) 0 by simp
    moreover have "filter is_io ?evs =
        concat (map (token_round cfg) (take k (attempt # rest))) @ [token_post cfg]"
      using 0 by (simp add: token_post_def)
    ultimately show ?thesis by blast
  next
    case (Suc j)
    from Cons.prems(3) Suc have "attempt_fails (net w (calls w))" by auto
    from token_try_fails[OF Cons.prems(1) this] obtain e where e: "is_RequestException e"
      and tr: "token_try cfg w =
        (Inl e, w\<lparr>trace := trace w @ [token_post cfg], calls := Suc (calls w)\<rparr>)" by blast
    let ?w1 = "w\<lparr>trace := trace w @ [token_post cfg], calls := Suc (calls w)\<rparr>"
    have s1: "signal ?w1 = None" using Cons.prems(1) by simp
    from token_except_run[OF s1] obtain evs where exc:
      "token_except attempt e ?w1 = (Inr (), ?w1\<lparr>trace := trace ?w1 @ evs\<rparr>)"
      and io: "filter is_io evs = (if attempt < 2 then [Sleep 10] else [])" by blast
    let ?w2 = "?w1\<lparr>trace := trace ?w1 @ evs\<rparr>"
    have s2: "signal ?w2 = None" using Cons.prems(1) by simp
    have j: "j < length rest" using Cons.prems(2) Suc by simp
    have f2: "\<forall>i < j. attempt_fails (net ?w2 (calls ?w2 + i))"
      using Cons.prems(3) Suc by auto
    have y2: "attempt_yields ''access_token'' (net ?w2 (calls ?w2 + j)) tok"
      using Cons.prems(4) Suc by simp
    from Cons.IH[OF s2 j f2 y2] obtain evs' where rest:
      "get_access_token_loop cfg rest ?w2 =
         (Inr tok, ?w2\<lparr>trace := trace ?w2 @ evs', calls := calls ?w2 + Suc j\<rparr>)"
      and io': "filter is_io evs' =
         concat (map (token_round cfg) (take j rest)) @ [token_post cfg]" by blast
    have "get_access_token_loop cfg (attempt # rest) w =
            (Inr tok, w\<lparr>trace := trace w @ (token_post cfg # evs @ evs'),
                         calls := calls w + Suc k\<rparr>)"
      using tr e exc rest Suc by simp
    moreover have "filter is_io (token_post cfg # evs @ evs') =
        concat (map (token_round cfg) (take k (attempt # rest))) @ [token_post cfg]"
      using io io' Suc by (simp add: token_round_def token_post_def)
    ultimately show ?thesis by blast
  qed
qed


lemma token_try_io:
  assumes "signal w = None" and "token_try cfg w = (r, w')"
  shows "\<exists>evs. trace w' = trace w @ evs \<and> filter is_io evs = [token_post cfg]"
proof -
  let ?ok = "Log INFO (Text ''Successfully obtained access token'')"
  have "trace w' = trace w @ [token_post cfg] \<or> trace w' = trace w @ [token_post cfg, ?ok]"
    using assms
    by (auto simp: token_try_def requests_post_def http_call_run andthen_def lift_def
        logger_info_run token_post_def split: sum.splits)
  moreover have "filter is_io [token_post cfg] = [token_post cfg]"
    and "filter is_io [token_post cfg, ?ok] = [token_post cfg]"
    by (simp_all add: token_post_def)
  ultimately show ?thesis by metis
qed

lemma loop_io:
  assumes "signal w = None" and "get_access_token_loop cfg attempts w = (r, w')"
  shows "\<exists>evs. trace w' = trace w @ evs \<and>
           (filter is_io evs = concat (map (token_round cfg) attempts) \<or>
            (\<exists>k < length attempts.
               filter is_io evs = concat (map (token_round cfg) (take k attempts)) @ [token_post cfg]))"
  using assms
proof (induction attempts arbitrary: w)
  case Nil
  then show ?case by simp
next
  case (Cons attempt rest)
  obtain r1 w1 where tr: "token_try cfg w = (r1, w1)" by (cases "token_try cfg w")
  from token_try_io[OF Cons.prems(1) tr] obtain a where a: "trace w1 = trace w @ a"
    "filter is_io a = [token_post cfg]" by blast
  have s1: "signal w1 = None" by (rule staysD(1)[OF stays_token_try Cons.prems(1) tr])
  show ?case
  proof (cases "\<exists>e. r1 = Inl e \<and> is_RequestException e")
    case False
    with Cons.prems(2) tr have "w' = w1" by (auto split: sum.splits)
    with a have "trace w' = trace w @ a"
      and "filter is_io a = concat (map (token_round cfg) (take 0 (attempt # rest))) @ [token_post cfg]"
      by simp_all
    then show ?thesis by (intro exI[of _ a]) auto
  next
    case True
    then obtain e where e: "r1 = Inl e" "is_RequestException e" by blast
    from token_except_run[OF s1, of attempt e] obtain b where
      b: "token_except attempt e w1 = (Inr (), w1\<lparr>trace := trace w1 @ b\<rparr>)"
      "filter is_io b = (if attempt < 2 then [Sleep 10] else [])" by blast
    let ?w2 = "w1\<lparr>trace := trace w1 @ b\<rparr>"
    have s2: "signal ?w2 = None" using s1 by simp
    have run: "get_access_token_loop cfg rest ?w2 = (r, w')"
      using Cons.prems(2) tr e b(1) by simp
    from Cons.IH[OF s2 run] obtain c where c: "trace w' = trace ?w2 @ c"
      "filter is_io c = concat (map (token_round cfg) rest) \<or>
       (\<exists>k < length rest.
          filter is_io c = concat (map (token_round cfg) (take k rest)) @ [token_post cfg])"
      by blast
    have ab: "filter is_io (a @ b) = token_round cfg attempt"
      using a(2) b(2) by (simp add: token_round_def)
    have t: "trace w' = trace w @ (a @ b @ c)" using a(1) c(1) by simp
    from c(2) show ?thesis
    proof
      assume "filter is_io c = concat (map (token_round cfg) rest)"
      with ab have "filter is_io (a @ b @ c) = concat (map (token_round cfg) (attempt # rest))"
        by simp
      with t show ?thesis by blast
    next
      assume "\<exists>k < length rest.
          filter is_io c = concat (map (token_round cfg) (take k rest)) @ [token_post cfg]"
      then obtain k where k: "k < length rest"
        "filter is_io c = concat (map (token_round cfg) (take k rest)) @ [token_post cfg]"
        by blast
      from ab k(2) have "filter is_io (a @ b @ c) =
          concat (map (token_round cfg) (take (Suc k) (attempt # rest))) @ [token_post cfg]"
        by simp
      moreover have "Suc k < length (attempt # rest)" using k(1) by simp
      ultimately show ?thesis using t by blast
    qed
  qed
qed

lemma rounds_all:
  "concat (map (token_round cfg) [0, 1, 2]) =
     [token_post cfg, Sleep 10, token_post cfg, Sleep 10, token_post cfg]"
  by (simp add: token_round_def)

lemma rounds:
  assumes "k < 3"
  shows "concat (map (token_round cfg) (take k [0, 1, 2])) =
           concat (replicate k [token_post cfg, Sleep 10])"
proof -
  from assms consider "k = 0" | "k = 1" | "k = 2" by arith
  then show ?thesis
    by cases (simp_all add: token_round_def numeral_2_eq_2)
qed

lemma all_less_two: "(\<forall>i < (2::nat). P i) \<longleftrightarrow> P 0 \<and> P 1"
  by (auto simp: less_2_cases_iff)

lemma token_event_cycle: "token_event ev \<Longrightarrow> cycle_event ev"
  by (cases ev) auto

lemma fetch_event_cycle: "fetch_event ev \<Longrightarrow> cycle_event ev"
  by (cases ev) auto

lemma stays_main: "stays cycle_event unanticipated (main cfg)"
proof -
  have a: "stays cycle_event unanticipated (get_access_token cfg)"
    by (rule stays_weaken[OF stays_get_access_token]) (auto intro: token_event_cycle)
  have b: "stays cycle_event unanticipated (fetch_workday_data cfg tok)" for tok
    by (rule stays_weaken[OF stays_fetch_workday_data]) (auto intro: fetch_event_cycle)
  show ?thesis
    unfolding main_def log_data_def
    by (intro stays_andthen stays_if a b stays_logger_info stays_logger_error) simp_all
qed

lemma main_after_fetch:
  assumes "signal w = None" and "get_access_token cfg w = (Inr tok, w1)" and "truthy tok"
    and "fetch_workday_data cfg tok w1 = (Inr data, w2)"
  shows "\<exists>a b. main cfg w =
            (Inr (), w2\<lparr>trace := trace w @ a @ b @
               [if truthy data then Log INFO (JsonDumps data)
                else Log ERROR (Text ''No data fetched from Workday'')]\<rparr>)
          \<and> list_all token_event a \<and> list_all fetch_event b"
proof -
  note t = staysD[OF stays_get_access_token assms(1,2)]
  note f = staysD[OF stays_fetch_workday_data t(1) assms(4)]
  from t(2) obtain a where a: "trace w1 = trace w @ a" "list_all token_event a" by blast
  from f(2) obtain b where b: "trace w2 = trace w1 @ b" "list_all fetch_event b" by blast
  have "main cfg w =
          (Inr (), w2\<lparr>trace := trace w2 @
             [if truthy data then Log INFO (JsonDumps data)
              else Log ERROR (Text ''No data fetched from Workday'')]\<rparr>)"
    using assms(2,3,4) f(1)
    by (simp add: main_def andthen_def log_data_def logger_info_run logger_error_run)
  with a b show ?thesis by auto
qed

lemma scheduler_iteration_run:
  assumes "signal w = None" and "main cfg w = (r, w')"
  shows "scheduler_iteration cfg w =
           (Inr (), w'\<lparr>trace := trace w' @
              (case r of Inl e \<Rightarrow> [Log ERROR (TextExc ''Unexpected error: '' e)] | Inr u \<Rightarrow> []) @
              [Sleep 3600]\<rparr>)"
proof -
  note m = staysD[OF stays_main assms]
  show ?thesis
  proof (cases r)
    case (Inl e)
    with m(3) have "is_Exception e" by (simp add: unanticipated_def)
    with Inl assms(2) m(1) show ?thesis
      by (simp add: scheduler_iteration_def andthen_def try_except_def logger_error_run
          time_sleep_run)
  next
    case (Inr u)
    with assms(2) m(1) show ?thesis
      by (simp add: scheduler_iteration_def andthen_def try_except_def time_sleep_run)
  qed
qed

lemma scheduler_loop_run:
  assumes "signal w = None"
  shows "\<exists>evs. scheduler_loop n cfg w = (None, snd (scheduler_loop n cfg w))
           \<and> signal (snd (scheduler_loop n cfg w)) = None
           \<and> trace (snd (scheduler_loop n cfg w)) = trace w @ evs
           \<and> count_list evs (Sleep 3600) = n"
  using assms
proof (induction n arbitrary: w)
  case 0
  then show ?case by simp
next
  case (Suc n)
  obtain r w1 where m: "main cfg w = (r, w1)" by (cases "main cfg w")
  note m1 = staysD[OF stays_main Suc.prems m]
  from m1(2) obtain a where a: "trace w1 = trace w @ a" "list_all cycle_event a" by blast
  let ?b = "(case r of Inl e \<Rightarrow> [Log ERROR (TextExc ''Unexpected error: '' e)] | Inr u \<Rightarrow> []) @
            [Sleep 3600]"
  let ?w2 = "w1\<lparr>trace := trace w1 @ ?b\<rparr>"
  have it: "scheduler_iteration cfg w = (Inr (), ?w2)"
    by (rule scheduler_iteration_run[OF Suc.prems m])
  have s2: "signal ?w2 = None" using m1(1) by simp
  from Suc.IH[OF s2] obtain c where c:
    "scheduler_loop n cfg ?w2 = (None, snd (scheduler_loop n cfg ?w2))"
    "signal (snd (scheduler_loop n cfg ?w2)) = None"
    "trace (snd (scheduler_loop n cfg ?w2)) = trace ?w2 @ c"
    "count_list c (Sleep 3600) = n" by blast
  have step: "scheduler_loop (Suc n) cfg w = scheduler_loop n cfg ?w2"
    using it by simp
  have "cycle_event ev \<Longrightarrow> ev \<noteq> Sleep 3600" for ev by (cases ev) auto
  with a(2) have "count_list a (Sleep 3600) = 0"
    by (auto simp: list_all_iff count_list_0_iff)
  moreover have "count_list ?b (Sleep 3600) = 1" by (cases r) simp_all
  ultimately have cnt: "count_list (a @ ?b @ c) (Sleep 3600) = Suc n"
    using c(4) by simp
  have tr: "trace (snd (scheduler_loop n cfg ?w2)) = trace w @ (a @ ?b @ c)"
    using c(3) a(1) by simp
  show ?case
    unfolding step using c(1,2) tr cnt by blast
qed

lemma get_access_token_ok:
  assumes "signal w = None" and "attempt_yields ''access_token'' (net w (calls w)) tok"
  shows "get_access_token cfg w =
           (Inr tok,
            w\<lparr>trace := trace w @ [token_post cfg, Log INFO (Text ''Successfully obtained access token'')],
              calls := Suc (calls w)\<rparr>)"
proof -
  from assms(2) obtain r kvs where r: "net w (calls w) = Returns r"
    "200 \<le> status_code r" "status_code r < 300" "json_result r = Decodes (JObject kvs)"
    "map_of kvs ''access_token'' = Some tok"
    by (cases "net w (calls w)") (auto split: json_outcome.splits json.splits)
  from r(2,3) have ok: "\<not> is_error_status (status_code r)" by (simp add: is_error_status_def)
  from token_try_returns[OF assms(1) r(1) ok r(4), of cfg] r(5) show ?thesis
    by (simp add: get_access_token_def)
qed

lemma fetch_workday_data_ok:
  assumes "signal w = None" and "net w (calls w) = Returns r"
    and "\<not> is_error_status (status_code r)" and "json_result r = Decodes data"
  shows "fetch_workday_data cfg tok w =
           (Inr data,
            w\<lparr>trace := trace w @ [HttpGet (rest_api_endpoint cfg) tok,
                                    Log INFO (Text ''Successfully fetched data from Workday'')],
              calls := Suc (calls w)\<rparr>)"
  using fetch_try_returns[OF assms, of cfg tok] by (simp add: fetch_workday_data_def)

lemma fetch_try_fails:
  assumes "signal w = None" and "attempt_fails (net w (calls w))"
  shows "\<exists>e. is_RequestException e \<and>
           fetch_try cfg tok w =
             (Inl e, w\<lparr>trace := trace w @ [HttpGet (rest_api_endpoint cfg) tok],
                        calls := Suc (calls w)\<rparr>)"
proof (cases "net w (calls w)")
  case (RaisesRequestException n r)
  with assms(1) show ?thesis
    by (simp add: fetch_try_def requests_get_def http_call_run andthen_def)
next
  case (RaisesOther n)
  with assms(2) show ?thesis by simp
next
  case (Returns r)
  with assms show ?thesis
    by (simp add: fetch_try_def requests_get_def http_call_run andthen_def lift_def
        raise_for_status_def)
qed

lemma fetch_except_run:
  assumes "signal w = None"
  shows "\<exists>evs. fetch_except attempt e w = (Inr (), w\<lparr>trace := trace w @ evs\<rparr>)"
proof -
  let ?first = "Log ERROR (TextExc ''Error fetching data from Workday: '' e)"
  let ?body = "if exc_response_truthy e
               then [Log ERROR (TextBytes ''Response content: '' (exc_response_content e))] else []"
  let ?retry = "if attempt < 2
                then [Log INFO (Text ''Retrying to fetch data from Workday...''), Sleep 10] else []"
  have "fetch_except attempt e w = (Inr (), w\<lparr>trace := trace w @ (?first # ?body @ ?retry)\<rparr>)"
    using assms
    by (simp add: fetch_except_def andthen_def logger_error_run logger_info_run time_sleep_run
        ret_def)
  then show ?thesis by blast
qed

lemma fetch_loop_all_fail:
  assumes "signal w = None" and "\<forall>i < length attempts. attempt_fails (net w (calls w + i))"
  shows "\<exists>w'. fetch_workday_data_loop cfg tok attempts w = (Inr JNull, w')"
  using assms
proof (induction attempts arbitrary: w)
  case Nil
  then show ?case by simp
next
  case (Cons attempt rest)
  from Cons.prems(2) have "attempt_fails (net w (calls w))" by auto
  from fetch_try_fails[OF Cons.prems(1) this] obtain e where e: "is_RequestException e"
    and tr: "fetch_try cfg tok w =
      (Inl e, w\<lparr>trace := trace w @ [HttpGet (rest_api_endpoint cfg) tok],
                 calls := Suc (calls w)\<rparr>)" by blast
  let ?w1 = "w\<lparr>trace := trace w @ [HttpGet (rest_api_endpoint cfg) tok], calls := Suc (calls w)\<rparr>"
  have s1: "signal ?w1 = None" using Cons.prems(1) by simp
  from fetch_except_run[OF s1] obtain evs where exc:
    "fetch_except attempt e ?w1 = (Inr (), ?w1\<lparr>trace := trace ?w1 @ evs\<rparr>)" by blast
  let ?w2 = "?w1\<lparr>trace := trace ?w1 @ evs\<rparr>"
  have s2: "signal ?w2 = None" using Cons.prems(1) by simp
  have f2: "\<forall>i < length rest. attempt_fails (net ?w2 (calls ?w2 + i))"
    using Cons.prems(2) by auto
  from Cons.IH[OF s2 f2] obtain w' where
    "fetch_workday_data_loop cfg tok rest ?w2 = (Inr JNull, w')" by blast
  then show ?case using tr e exc by simp
qed

lemma main_no_key:
  "main demo_settings world_no_key =
     (Inl (KeyError ''access_token''),
      world_no_key\<lparr>trace := [token_post demo_settings,
                               Log INFO (Text ''Successfully obtained access token'')],
                    calls := 1\<rparr>)"
proof -
  have s: "signal world_no_key = None" by (simp add: scenario_defs)
  have n: "net world_no_key (calls world_no_key) =
             Returns \<lparr>status_code = 200, content = ''{}'', json_result = Decodes (JObject [])\<rparr>"
    by (simp add: scenario_defs)
  have "token_try demo_settings world_no_key =
          (Inl (KeyError ''access_token''),
           world_no_key\<lparr>trace := [token_post demo_settings,
                               Log INFO (Text ''Successfully obtained access token'')],
                         calls := 1\<rparr>)"
    using token_try_returns[OF s n, of "JObject []" demo_settings]
    by (simp add: is_error_status_def scenario_defs)
  then show ?thesis by (simp add: main_def andthen_def get_access_token_def)
qed

lemma run_good:
  "get_access_token demo_settings world_good =
     (Inr (JString ''t''),
      world_good\<lparr>trace := [token_post demo_settings,
                             Log INFO (Text ''Successfully obtained access token'')],
                  calls := 1\<rparr>)"
  "fetch_workday_data demo_settings (JString ''t'')
     (world_good\<lparr>trace := [token_post demo_settings,
                             Log INFO (Text ''Successfully obtained access token'')],
                  calls := 1\<rparr>) =
     (Inr employees,
      world_good\<lparr>trace := [token_post demo_settings,
                             Log INFO (Text ''Successfully obtained access token''),
                             HttpGet (rest_api_endpoint demo_settings) (JString ''t''),
                             Log INFO (Text ''Successfully fetched data from Workday'')],
                  calls := 2\<rparr>)"
proof -
  have s: "signal world_good = None" by (simp add: scenario_defs)
  have y: "attempt_yields ''access_token'' (net world_good (calls world_good)) (JString ''t'')"
    by (simp add: scenario_defs)
  from get_access_token_ok[OF s y, of demo_settings]
  show 1: "get_access_token demo_settings world_good =
     (Inr (JString ''t''),
      world_good\<lparr>trace := [token_post demo_settings,
                             Log INFO (Text ''Successfully obtained access token'')],
                  calls := 1\<rparr>)"
    by (simp add: scenario_defs)
  let ?w1 = "world_good\<lparr>trace := [token_post demo_settings,
                             Log INFO (Text ''Successfully obtained access token'')],
                  calls := 1\<rparr>"
  have s1: "signal ?w1 = None" by (simp add: scenario_defs)
  have n1: "net ?w1 (calls ?w1) =
      Returns \<lparr>status_code = 200, content = ''(data)'', json_result = Decodes employees\<rparr>"
    by (simp add: scenario_defs)
  from fetch_workday_data_ok[OF s1 n1, of employees demo_settings "JString ''t''"]
  show "fetch_workday_data demo_settings (JString ''t'') ?w1 =
     (Inr employees,
      world_good\<lparr>trace := [token_post demo_settings,
                             Log INFO (Text ''Successfully obtained access token''),
                             HttpGet (rest_api_endpoint demo_settings) (JString ''t''),
                             Log INFO (Text ''Successfully fetched data from Workday'')],
                  calls := 2\<rparr>)"
    by (simp add: is_error_status_def)
qed

lemma run_empty_payload:
  "get_access_token demo_settings world_empty_payload =
     (Inr (JString ''t''),
      world_empty_payload\<lparr>trace := [token_post demo_settings,
                             Log INFO (Text ''Successfully obtained access token'')],
                  calls := 1\<rparr>)"
  "fetch_workday_data demo_settings (JString ''t'')
     (world_empty_payload\<lparr>trace := [token_post demo_settings,
                             Log INFO (Text ''Successfully obtained access token'')],
                  calls := 1\<rparr>) =
     (Inr (JObject []),
      world_empty_payload\<lparr>trace := [token_post demo_settings,
                             Log INFO (Text ''Successfully obtained access token''),
                             HttpGet (rest_api_endpoint demo_settings) (JString ''t''),
                             Log INFO (Text ''Successfully fetched data from Workday'')],
                  calls := 2\<rparr>)"
proof -
  have s: "signal world_empty_payload = None" by (simp add: scenario_defs)
  have y: "attempt_yields ''access_token'' (net world_empty_payload (calls world_empty_payload))
             (JString ''t'')"
    by (simp add: scenario_defs)
  from get_access_token_ok[OF s y, of demo_settings]
  show 1: "get_access_token demo_settings world_empty_payload =
     (Inr (JString ''t''),
      world_empty_payload\<lparr>trace := [token_post demo_settings,
                             Log INFO (Text ''Successfully obtained access token'')],
                  calls := 1\<rparr>)"
    by (simp add: scenario_defs)
  let ?w1 = "world_empty_payload\<lparr>trace := [token_post demo_settings,
                             Log INFO (Text ''Successfully obtained access token'')],
                  calls := 1\<rparr>"
  have s1: "signal ?w1 = None" by (simp add: scenario_defs)
  have n1: "net ?w1 (calls ?w1) =
      Returns \<lparr>status_code = 200, content = ''(data)'', json_result = Decodes (JObject [])\<rparr>"
    by (simp add: scenario_defs)
  from fetch_workday_data_ok[OF s1 n1, of "JObject []" demo_settings "JString ''t''"]
  show "fetch_workday_data demo_settings (JString ''t'') ?w1 =
     (Inr (JObject []),
      world_empty_payload\<lparr>trace := [token_post demo_settings,
                             Log INFO (Text ''Successfully obtained access token''),
                             HttpGet (rest_api_endpoint demo_settings) (JString ''t''),
                             Log INFO (Text ''Successfully fetched data from Workday'')],
                  calls := 2\<rparr>)"
    by (simp add: is_error_status_def)
qed

section \<open>Running with a signal on its way\<close>

lemma yieldsI:
  assumes "\<And>w k r w'. signal w = Some k \<Longrightarrow> m w = (r, w') \<Longrightarrow>
     shut_down r w' \<or> went_on strict E k r w'"
  shows "yields strict E m"
  unfolding yields_def
proof (intro allI impI)
  fix w :: world and k
  assume w: "signal w = Some k"
  obtain r w' where m: "m w = (r, w')" by (cases "m w")
  from assms[OF w m] show "case m w of (r, w') \<Rightarrow> shut_down r w' \<or> went_on strict E k r w'"
    by (simp add: m)
qed

lemma yieldsD:
  assumes "yields strict E m" "signal w = Some k" "m w = (r, w')"
  shows "shut_down r w' \<or> went_on strict E k r w'"
proof -
  note assms(1)[unfolded yields_def, rule_format, OF assms(2)]
  then show ?thesis by (simp add: assms(3))
qed

lemma yields_weaken:
  assumes "yields s E m" and "s' \<longrightarrow> s" and "\<And>e. E e \<Longrightarrow> is_Exception e \<Longrightarrow> F e"
  shows "yields s' F m"
proof (rule yieldsI)
  fix w k r w'
  assume w: "signal w = Some k" and run: "m w = (r, w')"
  from yieldsD[OF assms(1) w run] show "shut_down r w' \<or> went_on s' F k r w'"
    using assms(2,3) unfolding went_on_def by fastforce
qed

lemma yields_checkpoint: "yields True E checkpoint"
proof (rule yieldsI)
  fix w k r w'
  assume w: "signal w = Some k" and run: "checkpoint w = (r, w')"
  show "shut_down r w' \<or> went_on True E k r w'"
  proof (cases k)
    case 0
    with w run have "shut_down r w'"
      by (auto simp: checkpoint_def signal_handler_def andthen_def emit_def raise_def
          shut_down_def shutdown_line_def)
    then show ?thesis ..
  next
    case (Suc j)
    with w run have "went_on True E k r w'"
      by (auto simp: checkpoint_def went_on_def)
    then show ?thesis ..
  qed
qed

lemma yields_ret: "yields False E (ret x)"
  by (rule yieldsI) (auto simp: ret_def went_on_def)

lemma yields_Inr: "yields False E (\<lambda>w. (Inr x, w))"
  by (rule yieldsI) (auto simp: went_on_def)

lemma yields_lift: "(\<And>e. r = Inl e \<Longrightarrow> E e \<and> is_Exception e) \<Longrightarrow> yields False E (lift r)"
  by (rule yieldsI) (auto simp: lift_def went_on_def)

lemma yields_emit: "yields False E (emit ev)"
  by (rule yieldsI) (auto simp: emit_def went_on_def)

lemma yields_andthen:
  assumes "yields s E m" and "\<And>x. yields False E (f x)"
  shows "yields s E (andthen m f)"
proof (rule yieldsI)
  fix w k r w'
  assume w: "signal w = Some k" and run: "andthen m f w = (r, w')"
  obtain r1 w1 where m: "m w = (r1, w1)" by (cases "m w")
  from yieldsD[OF assms(1) w m] show "shut_down r w' \<or> went_on s E k r w'"
  proof
    assume sd: "shut_down r1 w1"
    then have "r1 = Inl (SystemExit 0)" by (simp add: shut_down_def)
    with run m have "r = Inl (SystemExit 0)" "w' = w1" by (auto simp: andthen_def)
    with sd show ?thesis by (simp add: shut_down_def)
  next
    assume go: "went_on s E k r1 w1"
    then obtain j where j: "signal w1 = Some j" "j \<le> k" "s \<longrightarrow> j < k"
      by (auto simp: went_on_def)
    show ?thesis
    proof (cases r1)
      case (Inl e)
      with run m have "r = Inl e" "w' = w1" by (auto simp: andthen_def)
      with go Inl have "went_on s E k r w'" by (simp add: went_on_def)
      then show ?thesis ..
    next
      case (Inr x)
      with run m have f: "f x w1 = (r, w')" by (auto simp: andthen_def)
      from yieldsD[OF assms(2) j(1) f] show ?thesis
      proof
        assume "shut_down r w'"
        then show ?thesis ..
      next
        assume "went_on False E j r w'"
        with j(2,3) have "went_on s E k r w'" unfolding went_on_def by fastforce
        then show ?thesis ..
      qed
    qed
  qed
qed

lemma yields_try_except:
  assumes "yields s E0 m" and "\<And>e. cls e \<Longrightarrow> yields False E (h e)"
    and "\<And>e. E0 e \<Longrightarrow> is_Exception e \<Longrightarrow> \<not> cls e \<Longrightarrow> E e"
    and "\<And>c. \<not> cls (SystemExit c)"
  shows "yields s E (try_except m cls h)"
proof (rule yieldsI)
  fix w k r w'
  assume w: "signal w = Some k" and run: "try_except m cls h w = (r, w')"
  obtain r1 w1 where m: "m w = (r1, w1)" by (cases "m w")
  from yieldsD[OF assms(1) w m] show "shut_down r w' \<or> went_on s E k r w'"
  proof
    assume sd: "shut_down r1 w1"
    then have "r1 = Inl (SystemExit 0)" by (simp add: shut_down_def)
    with run m assms(4) have "r = r1" "w' = w1" by (auto simp: try_except_def)
    with sd show ?thesis by (simp add: shut_down_def)
  next
    assume go: "went_on s E0 k r1 w1"
    then obtain j where j: "signal w1 = Some j" "j \<le> k" "s \<longrightarrow> j < k"
      by (auto simp: went_on_def)
    show ?thesis
    proof (cases "\<exists>e. r1 = Inl e \<and> cls e")
      case False
      with run m have eq: "r = r1" "w' = w1"
        by (auto simp: try_except_def split: sum.splits if_splits)
      from go False assms(3) have "went_on s E k r1 w1" unfolding went_on_def by blast
      with eq show ?thesis by simp
    next
      case True
      then obtain e where e: "r1 = Inl e" "cls e" by blast
      with run m have f: "h e w1 = (r, w')" by (auto simp: try_except_def)
      from yieldsD[OF assms(2)[OF e(2)] j(1) f] show ?thesis
      proof
        assume "shut_down r w'"
        then show ?thesis ..
      next
        assume "went_on False E j r w'"
        with j(2,3) have "went_on s E k r w'" unfolding went_on_def by fastforce
        then show ?thesis ..
      qed
    qed
  qed
qed

lemma yields_if: "yields s E a \<Longrightarrow> yields s E b \<Longrightarrow> yields s E (if c then a else b)"
  by simp

lemma yields_relax: "yields True E m \<Longrightarrow> yields False E m"
  by (rule yields_weaken) auto

lemma yields_logger_info: "yields True E (logger_info m)"
  unfolding logger_info_def by (intro yields_andthen yields_checkpoint yields_emit)

lemma yields_logger_error: "yields True E (logger_error m)"
  unfolding logger_error_def by (intro yields_andthen yields_checkpoint yields_emit)

lemma yields_time_sleep: "yields True E (time_sleep n)"
  unfolding time_sleep_def
  by (intro yields_andthen yields_checkpoint yields_emit yields_relax[OF yields_checkpoint])

lemma yields_next_response: "yields False (\<lambda>e. True) next_response"
  by (rule yieldsI) (auto simp: next_response_def went_on_def dest: http_result_Exception)

lemma yields_http_call: "yields True (\<lambda>e. True) (http_call ev)"
  unfolding http_call_def
  by (intro yields_andthen yields_checkpoint yields_emit yields_next_response
      yields_relax[OF yields_checkpoint])


lemma yields_token_try: "yields True anything (token_try cfg)"
  unfolding token_try_def requests_post_def anything_def[abs_def]
  by (intro yields_andthen yields_http_call yields_lift yields_relax[OF yields_logger_info])
     (auto dest: raise_for_status_Exception response_json_Exception subscript_Exception)

lemma yields_token_except: "yields True never (token_except attempt e)"
  unfolding token_except_def
  by (intro yields_andthen yields_if yields_logger_error yields_ret
      yields_relax[OF yields_logger_error] yields_relax[OF yields_logger_info]
      yields_relax[OF yields_time_sleep])

lemma yields_fetch_try: "yields True anything (fetch_try cfg tok)"
  unfolding fetch_try_def requests_get_def anything_def[abs_def]
  by (intro yields_andthen yields_http_call yields_lift yields_relax[OF yields_logger_info])
     (auto dest: raise_for_status_Exception response_json_Exception)

lemma yields_fetch_except: "yields True never (fetch_except attempt e)"
  unfolding fetch_except_def
  by (intro yields_andthen yields_if yields_logger_error yields_ret
      yields_relax[OF yields_logger_error] yields_relax[OF yields_logger_info]
      yields_relax[OF yields_time_sleep])

lemma yields_get_access_token_loop:
  "yields False anything (get_access_token_loop cfg attempts)"
proof (induction attempts)
  case Nil
  have "get_access_token_loop cfg [] = (\<lambda>w. (Inr JNull, w))" by (rule ext) simp
  then show ?case by (simp add: yields_Inr)
next
  case (Cons attempt rest)
  show ?case
    unfolding get_access_token_loop_Cons
  proof (rule yields_try_except[OF yields_relax[OF yields_token_try]])
    fix e
    show "yields False anything
            (andthen (token_except attempt e) (\<lambda>u. get_access_token_loop cfg rest))"
      by (intro yields_andthen Cons.IH yields_weaken[OF yields_token_except])
         (auto simp: never_def)
  qed (simp_all add: anything_def)
qed

lemma yields_fetch_workday_data_loop:
  "yields False anything (fetch_workday_data_loop cfg tok attempts)"
proof (induction attempts)
  case Nil
  have "fetch_workday_data_loop cfg tok [] = (\<lambda>w. (Inr JNull, w))" by (rule ext) simp
  then show ?case by (simp add: yields_Inr)
next
  case (Cons attempt rest)
  show ?case
    unfolding fetch_workday_data_loop_Cons
  proof (rule yields_try_except[OF yields_relax[OF yields_fetch_try]])
    fix e
    show "yields False anything
            (andthen (fetch_except attempt e) (\<lambda>u. fetch_workday_data_loop cfg tok rest))"
      by (intro yields_andthen Cons.IH yields_weaken[OF yields_fetch_except])
         (auto simp: never_def)
  qed (simp_all add: anything_def)
qed

lemma yields_main: "yields False anything (main cfg)"
  unfolding main_def log_data_def get_access_token_def fetch_workday_data_def
  by (intro yields_andthen yields_if yields_get_access_token_loop yields_fetch_workday_data_loop
      yields_relax[OF yields_logger_info] yields_relax[OF yields_logger_error])

lemma yields_scheduler_iteration: "yields True never (scheduler_iteration cfg)"
proof -
  have body: "yields False never
     (try_except (main cfg) is_Exception (\<lambda>e. logger_error (TextExc ''Unexpected error: '' e)))"
    by (rule yields_try_except[OF yields_main]) (simp_all add: yields_relax[OF yields_logger_error])
  show ?thesis
  proof (rule yieldsI)
    fix w k r w'
    assume w: "signal w = Some k" and run: "scheduler_iteration cfg w = (r, w')"
    let ?body = "try_except (main cfg) is_Exception
                   (\<lambda>e. logger_error (TextExc ''Unexpected error: '' e))"
    obtain r1 w1 where b: "?body w = (r1, w1)" by (cases "?body w")
    from yieldsD[OF body w b] show "shut_down r w' \<or> went_on True never k r w'"
    proof
      assume sd: "shut_down r1 w1"
      then have "r1 = Inl (SystemExit 0)" by (simp add: shut_down_def)
      with run b have "r = Inl (SystemExit 0)" "w' = w1"
        by (auto simp: scheduler_iteration_def andthen_def)
      with sd show ?thesis by (simp add: shut_down_def)
    next
      assume go: "went_on False never k r1 w1"
      then obtain j where j: "signal w1 = Some j" "j \<le> k" by (auto simp: went_on_def)
      from go have "\<exists>u. r1 = Inr u" by (cases r1) (auto simp: went_on_def never_def)
      with run b have s: "time_sleep 3600 w1 = (r, w')"
        by (auto simp: scheduler_iteration_def andthen_def)
      from yieldsD[OF yields_time_sleep j(1) s] show ?thesis
      proof
        assume "shut_down r w'"
        then show ?thesis ..
      next
        assume "went_on True never j r w'"
        with j(2) have "went_on True never k r w'" unfolding went_on_def by fastforce
        then show ?thesis ..
      qed
    qed
  qed
qed

lemma scheduler_loop_signal:
  assumes "signal w = Some k" and "k < n"
  shows "\<exists>w'. scheduler_loop n cfg w = (Some (SystemExit 0), w') \<and> signal w' = None \<and>
           trace w' \<noteq> [] \<and> last (trace w') = shutdown_line"
  using assms
proof (induction n arbitrary: w k)
  case 0
  then show ?case by simp
next
  case (Suc n)
  obtain r w1 where it: "scheduler_iteration cfg w = (r, w1)"
    by (cases "scheduler_iteration cfg w")
  from yieldsD[OF yields_scheduler_iteration Suc.prems(1) it] show ?case
  proof
    assume "shut_down r w1"
    with it show ?thesis by (simp add: shut_down_def)
  next
    assume go: "went_on True never k r w1"
    then obtain j where j: "signal w1 = Some j" "j < k" by (auto simp: went_on_def)
    from go have "\<exists>u. r = Inr u" by (cases r) (auto simp: went_on_def never_def)
    with it have step: "scheduler_loop (Suc n) cfg w = scheduler_loop n cfg w1" by auto
    from j(2) Suc.prems(2) have "j < n" by simp
    from Suc.IH[OF j(1) this] show ?thesis unfolding step .
  qed
qed

section \<open>Evaluation and startup\<close>

lemmas run_defs =
  get_access_token_def fetch_workday_data_def token_try_def token_except_def fetch_try_def
  fetch_except_def requests_post_def requests_get_def http_call_def next_response_def
  logger_info_def logger_error_def time_sleep_def checkpoint_def signal_handler_def emit_def
  andthen_def try_except_def ret_def raise_def lift_def raise_for_status_def response_json_def
  response_bool_def is_error_status_def main_def log_data_def scheduler_iteration_def

lemma all_contains_object:
  "all_contains (JObject wd) keys = Inr (\<forall>key \<in> set keys. map_of wd key \<noteq> None)"
  by (induction keys) auto

lemma subscript_Inr: "subscript x key = Inr v \<Longrightarrow> \<exists>kvs. x = JObject kvs \<and> map_of kvs key = Some v"
  by (cases x) (auto split: option.splits)

lemma TimedRotatingFileHandler_Inr:
  "TimedRotatingFileHandler path w = (Inr u, w') \<Longrightarrow> \<exists>p. path = JString p \<and> w' = w"
  by (cases path) (auto simp: TimedRotatingFileHandler_def split: if_splits)

lemma contains_Inl: "contains x key = Inl e \<Longrightarrow> exit_status e = 1"
  by (cases x) auto

lemma all_contains_Inl: "all_contains x keys = Inl e \<Longrightarrow> exit_status e = 1"
  by (induction keys) (auto split: sum.splits if_splits dest: contains_Inl)

lemma dict_get_Inl: "dict_get x key = Inl e \<Longrightarrow> exit_status e = 1"
  by (cases x) auto

lemma subscript_Inl: "subscript x key = Inl e \<Longrightarrow> exit_status e = 1"
  by (cases x) (auto split: option.splits)

lemma TimedRotatingFileHandler_Inl:
  "TimedRotatingFileHandler path w = (Inl e, w') \<Longrightarrow> exit_status e = 1 \<and> w' = w"
  by (cases path) (auto simp: TimedRotatingFileHandler_def split: if_splits)

text \<open>
  However startup fails, the exit status is 1 and at most one configuration error was
  printed: startup itself never touches the network.
\<close>

lemma startup_failure:
  assumes "startup config w = (Inl e, w')"
  shows "exit_status e = 1 \<and>
         (w' = w \<or> w' = w\<lparr>trace := trace w @ [Print config_error_1]\<rparr>
                 \<or> w' = w\<lparr>trace := trace w @ [Print config_error_2]\<rparr>)"
  using assms
  by (auto simp: startup_def andthen_def lift_def emit_def sys_exit_def raise_def ret_def
      split: sum.splits if_splits prod.splits
      dest: dict_get_Inl all_contains_Inl subscript_Inl TimedRotatingFileHandler_Inl
            TimedRotatingFileHandler_Inr)

section \<open>A run with a signal against the run without\<close>

lemma interruptibleI:
  assumes "\<And>w k r w1 r' w2. signal w = None \<Longrightarrow> m w = (r, w1) \<Longrightarrow>
     m (w\<lparr>signal := Some k\<rparr>) = (r', w2) \<Longrightarrow>
     signal w1 = None \<and>
     (\<exists>evs. trace w1 = trace w @ evs \<and> (cut k evs w r' w2 \<or> same k evs r w1 r' w2))"
  shows "interruptible m"
  unfolding interruptible_def
proof (intro allI impI)
  fix w :: world and k
  assume w: "signal w = None"
  obtain r w1 where a: "m w = (r, w1)" by (cases "m w")
  obtain r' w2 where b: "m (w\<lparr>signal := Some k\<rparr>) = (r', w2)"
    by (cases "m (w\<lparr>signal := Some k\<rparr>)")
  from assms[OF w a b]
  show "case m w of (r, w1) \<Rightarrow>
           case m (w\<lparr>signal := Some k\<rparr>) of (r', w2) \<Rightarrow>
             signal w1 = None \<and>
             (\<exists>evs. trace w1 = trace w @ evs \<and> (cut k evs w r' w2 \<or> same k evs r w1 r' w2))"
    by (simp add: a b)
qed

lemma interruptibleD:
  assumes "interruptible m" "signal w = None" "m w = (r, w1)"
    "m (w\<lparr>signal := Some k\<rparr>) = (r', w2)"
  shows "signal w1 = None \<and>
     (\<exists>evs. trace w1 = trace w @ evs \<and> (cut k evs w r' w2 \<or> same k evs r w1 r' w2))"
proof -
  note assms(1)[unfolded interruptible_def, rule_format, OF assms(2), of k]
  then show ?thesis by (simp add: assms(3,4))
qed

lemma sameI:
  "r' = r \<Longrightarrow> length evs + j \<le> k \<Longrightarrow> w2 = w1\<lparr>signal := Some j\<rparr> \<Longrightarrow> same k evs r w1 r' w2"
  unfolding same_def by blast

text \<open>A statement with no delivery point and no event.\<close>

lemma interruptible_plain:
  assumes "\<And>w k. signal w = None \<Longrightarrow>
      signal (snd (m w)) = None \<and> trace (snd (m w)) = trace w \<and>
      m (w\<lparr>signal := Some k\<rparr>) = (fst (m w), (snd (m w))\<lparr>signal := Some k\<rparr>)"
  shows "interruptible m"
proof (rule interruptibleI)
  fix w k r w1 r' w2
  assume w: "signal w = None" and a: "m w = (r, w1)" and b: "m (w\<lparr>signal := Some k\<rparr>) = (r', w2)"
  from assms[OF w, of k] a b have 1: "signal w1 = None" "trace w1 = trace w @ []"
    "r' = r" "w2 = w1\<lparr>signal := Some k\<rparr>" by simp_all
  from 1(3,4) have "same k [] r w1 r' w2" by (intro sameI[of _ _ _ k]) simp_all
  with 1(1,2) show "signal w1 = None \<and>
     (\<exists>evs. trace w1 = trace w @ evs \<and> (cut k evs w r' w2 \<or> same k evs r w1 r' w2))"
    by blast
qed

lemma interruptible_ret: "interruptible (ret x)"
  by (rule interruptible_plain) (simp add: ret_def)

lemma interruptible_Inr: "interruptible (\<lambda>w. (Inr x, w))"
  by (rule interruptible_plain) simp

lemma interruptible_lift: "interruptible (lift r)"
  by (rule interruptible_plain) (simp add: lift_def)

lemma interruptible_next_response: "interruptible next_response"
  by (rule interruptible_plain) (simp add: next_response_def)

text \<open>The three shapes of a delivery point followed by an event.\<close>

lemma checkpoint_fires:
  "checkpoint (w\<lparr>signal := Some 0\<rparr>) =
     (Inl (SystemExit 0), w\<lparr>trace := trace w @ [shutdown_line], signal := None\<rparr>)"
  by (simp add: checkpoint_def signal_handler_def andthen_def emit_def raise_def shutdown_line_def)

lemma checkpoint_passes:
  "checkpoint (w\<lparr>signal := Some (Suc j)\<rparr>) = (Inr (), w\<lparr>signal := Some j\<rparr>)"
  by (simp add: checkpoint_def)

lemma interruptible_logged:
  "interruptible (andthen checkpoint (\<lambda>u. emit ev))"
proof (rule interruptibleI)
  fix w k r w1 r' w2
  let ?m = "andthen checkpoint (\<lambda>u. emit ev)"
  assume w: "signal w = None" and a: "?m w = (r, w1)" and b: "?m (w\<lparr>signal := Some k\<rparr>) = (r', w2)"
  from w a have 1: "r = Inr ()" "w1 = w\<lparr>trace := trace w @ [ev]\<rparr>"
    by (simp_all add: andthen_def checkpoint_None emit_def)
  have "cut k [ev] w r' w2 \<or> same k [ev] r w1 r' w2"
  proof (cases k)
    case 0
    with b have "r' = Inl (SystemExit 0)" "w2 = w\<lparr>trace := trace w @ [shutdown_line], signal := None\<rparr>"
      by (simp_all add: andthen_def checkpoint_fires)
    then have "cut k [ev] w r' w2" by (auto simp: cut_def intro: exI[of _ "[]"])
    then show ?thesis ..
  next
    case (Suc j)
    with b 1 have "r' = r" "w2 = w1\<lparr>signal := Some j\<rparr>"
      by (auto simp: andthen_def checkpoint_passes emit_def)
    with Suc have "same k [ev] r w1 r' w2" by (intro sameI[of _ _ _ j]) simp_all
    then show ?thesis ..
  qed
  with 1 w show "signal w1 = None \<and>
     (\<exists>evs. trace w1 = trace w @ evs \<and> (cut k evs w r' w2 \<or> same k evs r w1 r' w2))"
    by (intro conjI exI[of _ "[ev]"]) simp_all
qed

lemma interruptible_checkpoint: "interruptible checkpoint"
proof (rule interruptibleI)
  fix w k r w1 r' w2
  assume w: "signal w = None" and a: "checkpoint w = (r, w1)"
    and b: "checkpoint (w\<lparr>signal := Some k\<rparr>) = (r', w2)"
  from w a have 1: "r = Inr ()" "w1 = w" by (simp_all add: checkpoint_def)
  have "cut k [] w r' w2 \<or> same k [] r w1 r' w2"
  proof (cases k)
    case 0
    with b have "r' = Inl (SystemExit 0)" "w2 = w\<lparr>trace := trace w @ [shutdown_line], signal := None\<rparr>"
      by (simp_all add: checkpoint_fires)
    then have "cut k [] w r' w2" by (auto simp: cut_def)
    then show ?thesis ..
  next
    case (Suc j)
    with b 1 have "r' = r" "w2 = w1\<lparr>signal := Some j\<rparr>"
      by (auto simp: checkpoint_passes)
    with Suc have "same k [] r w1 r' w2" by (intro sameI[of _ _ _ j]) simp_all
    then show ?thesis ..
  qed
  with 1 w show "signal w1 = None \<and>
     (\<exists>evs. trace w1 = trace w @ evs \<and> (cut k evs w r' w2 \<or> same k evs r w1 r' w2))"
    by (intro conjI exI[of _ "[]"]) simp_all
qed

text \<open>Sequencing: what the second part adds to a first part that was not cut.\<close>

lemma cut_carry:
  assumes "cut k first w rm wm" and "r' = Inl (SystemExit 0)"
  shows "cut k (first @ evs) w r' wm"
  using assms unfolding cut_def by (auto intro: prefix_order.trans)

lemma then_cut:
  assumes "cut j evs wm r' w2" and "trace wm = trace w @ first" and "length first + j \<le> k"
  shows "cut k (first @ evs) w r' w2"
proof -
  from assms(1) obtain pre where pre: "r' = Inl (SystemExit 0)" "signal w2 = None"
    "prefix pre evs" "length pre \<le> j" "trace w2 = trace wm @ pre @ [shutdown_line]"
    unfolding cut_def by blast
  from pre(3) have "prefix (first @ pre) (first @ evs)" by simp
  moreover from pre(4) assms(3) have "length (first @ pre) \<le> k" by simp
  moreover from pre(5) assms(2) have "trace w2 = trace w @ (first @ pre) @ [shutdown_line]"
    by simp
  ultimately show ?thesis using pre(1,2) unfolding cut_def by blast
qed

lemma then_same:
  assumes "same j evs r w1 r' w2" and "length first + j \<le> k"
  shows "same k (first @ evs) r w1 r' w2"
proof -
  from assms(1) obtain i where i: "r' = r" "length evs + i \<le> j" "w2 = w1\<lparr>signal := Some i\<rparr>"
    unfolding same_def by blast
  from i(2) assms(2) have "length (first @ evs) + i \<le> k" by simp
  with i(1,3) show ?thesis unfolding same_def by blast
qed

lemma then_outcome:
  assumes "interruptible g" and "signal wm = None" and "trace wm = trace w @ first"
    and "length first + j \<le> k"
    and "g wm = (r, w1)" and "g (wm\<lparr>signal := Some j\<rparr>) = (r', w2)"
  shows "signal w1 = None \<and>
     (\<exists>evs. trace w1 = trace w @ evs \<and> (cut k evs w r' w2 \<or> same k evs r w1 r' w2))"
proof -
  from interruptibleD[OF assms(1,2,5,6)] obtain evs where
    s1: "signal w1 = None" and evs: "trace w1 = trace wm @ evs"
    and alt: "cut j evs wm r' w2 \<or> same j evs r w1 r' w2" by blast
  from alt have "cut k (first @ evs) w r' w2 \<or> same k (first @ evs) r w1 r' w2"
  proof
    assume "cut j evs wm r' w2"
    from then_cut[OF this assms(3,4)] show ?thesis ..
  next
    assume "same j evs r w1 r' w2"
    from then_same[OF this assms(4)] show ?thesis ..
  qed
  moreover from evs assms(3) have "trace w1 = trace w @ (first @ evs)" by simp
  ultimately show ?thesis using s1 by blast
qed

lemma after_cut:
  assumes "interruptible g" and "signal wm = None" and "trace wm = trace w @ first"
    and "cut k first w rm' wm'" and "g wm = (r, w1)" and "r' = Inl (SystemExit 0)"
  shows "signal w1 = None \<and>
     (\<exists>evs. trace w1 = trace w @ evs \<and> (cut k evs w r' wm' \<or> same k evs r w1 r' wm'))"
proof -
  obtain r0 w0 where "g (wm\<lparr>signal := Some 0\<rparr>) = (r0, w0)"
    by (cases "g (wm\<lparr>signal := Some 0\<rparr>)")
  from interruptibleD[OF assms(1,2,5) this] obtain evs where
    s1: "signal w1 = None" and evs: "trace w1 = trace wm @ evs" by blast
  from cut_carry[OF assms(4,6)] have "cut k (first @ evs) w r' wm'" .
  moreover from evs assms(3) have "trace w1 = trace w @ (first @ evs)" by simp
  ultimately show ?thesis using s1 by blast
qed

lemma interruptible_andthen:
  assumes "interruptible m" and "\<And>x. interruptible (f x)"
  shows "interruptible (andthen m f)"
proof (rule interruptibleI)
  fix w k r w1 r' w2
  assume w: "signal w = None" and a: "andthen m f w = (r, w1)"
    and b: "andthen m f (w\<lparr>signal := Some k\<rparr>) = (r', w2)"
  obtain rm wm where m: "m w = (rm, wm)" by (cases "m w")
  obtain rm' wm' where m': "m (w\<lparr>signal := Some k\<rparr>) = (rm', wm')"
    by (cases "m (w\<lparr>signal := Some k\<rparr>)")
  from interruptibleD[OF assms(1) w m m'] obtain first where
    sm: "signal wm = None" and first: "trace wm = trace w @ first"
    and alt: "cut k first w rm' wm' \<or> same k first rm wm rm' wm'"
    by blast
  show "signal w1 = None \<and>
     (\<exists>evs. trace w1 = trace w @ evs \<and> (cut k evs w r' w2 \<or> same k evs r w1 r' w2))"
  proof (cases rm)
    case (Inl e)
    with a m have 1: "r = Inl e" "w1 = wm" by (auto simp: andthen_def)
    from alt have "cut k first w r' w2 \<or> same k first r w1 r' w2"
    proof
      assume c: "cut k first w rm' wm'"
      then have "rm' = Inl (SystemExit 0)" by (simp add: cut_def)
      with b m' have "r' = Inl (SystemExit 0)" "w2 = wm'" by (auto simp: andthen_def)
      with c have "cut k first w r' w2" by (simp add: cut_def)
      then show ?thesis ..
    next
      assume "same k first rm wm rm' wm'"
      with b m' Inl 1 have "same k first r w1 r' w2"
        by (auto simp: andthen_def same_def)
      then show ?thesis ..
    qed
    with 1 sm first show ?thesis by blast
  next
    case (Inr x)
    with a m have fx: "f x wm = (r, w1)" by (auto simp: andthen_def)
    from alt show ?thesis
    proof
      assume c: "cut k first w rm' wm'"
      then have "rm' = Inl (SystemExit 0)" by (simp add: cut_def)
      with b m' have 2: "r' = Inl (SystemExit 0)" "w2 = wm'" by (auto simp: andthen_def)
      from after_cut[OF assms(2) sm first c fx 2(1)] 2(2) show ?thesis by simp
    next
      assume "same k first rm wm rm' wm'"
      then obtain j where j: "rm' = rm" "length first + j \<le> k" "wm' = wm\<lparr>signal := Some j\<rparr>"
        unfolding same_def by blast
      with b m' Inr have fx': "f x (wm\<lparr>signal := Some j\<rparr>) = (r', w2)"
        by (auto simp: andthen_def)
      from then_outcome[OF assms(2) sm first j(2) fx fx'] show ?thesis .
    qed
  qed
qed

lemma interruptible_try_except:
  assumes "interruptible m" and "\<And>e. interruptible (h e)" and "\<And>c. \<not> cls (SystemExit c)"
  shows "interruptible (try_except m cls h)"
proof (rule interruptibleI)
  fix w k r w1 r' w2
  assume w: "signal w = None" and a: "try_except m cls h w = (r, w1)"
    and b: "try_except m cls h (w\<lparr>signal := Some k\<rparr>) = (r', w2)"
  obtain rm wm where m: "m w = (rm, wm)" by (cases "m w")
  obtain rm' wm' where m': "m (w\<lparr>signal := Some k\<rparr>) = (rm', wm')"
    by (cases "m (w\<lparr>signal := Some k\<rparr>)")
  from interruptibleD[OF assms(1) w m m'] obtain first where
    sm: "signal wm = None" and first: "trace wm = trace w @ first"
    and alt: "cut k first w rm' wm' \<or> same k first rm wm rm' wm'"
    by blast
  show "signal w1 = None \<and>
     (\<exists>evs. trace w1 = trace w @ evs \<and> (cut k evs w r' w2 \<or> same k evs r w1 r' w2))"
  proof (cases "\<exists>e. rm = Inl e \<and> cls e")
    case False
    with a m have 1: "r = rm" "w1 = wm"
      by (auto simp: try_except_def split: sum.splits if_splits)
    from alt have "cut k first w r' w2 \<or> same k first r w1 r' w2"
    proof
      assume c: "cut k first w rm' wm'"
      then have "rm' = Inl (SystemExit 0)" by (simp add: cut_def)
      with b m' assms(3) have "r' = rm'" "w2 = wm'" by (auto simp: try_except_def)
      with c show ?thesis by simp
    next
      assume s: "same k first rm wm rm' wm'"
      then have "rm' = rm" by (simp add: same_def)
      with b m' False have "r' = rm'" "w2 = wm'"
        by (auto simp: try_except_def split: sum.splits if_splits)
      with s 1 show ?thesis by simp
    qed
    with 1 sm first show ?thesis by blast
  next
    case True
    then obtain e where e: "rm = Inl e" "cls e" by blast
    with a m have he: "h e wm = (r, w1)" by (auto simp: try_except_def)
    from alt show ?thesis
    proof
      assume c: "cut k first w rm' wm'"
      then have 0: "rm' = Inl (SystemExit 0)" by (simp add: cut_def)
      with b m' assms(3) have 2: "r' = Inl (SystemExit 0)" "w2 = wm'"
        by (auto simp: try_except_def)
      from after_cut[OF assms(2) sm first c he 2(1)] 2(2) show ?thesis by simp
    next
      assume "same k first rm wm rm' wm'"
      then obtain j where j: "rm' = rm" "length first + j \<le> k" "wm' = wm\<lparr>signal := Some j\<rparr>"
        unfolding same_def by blast
      with b m' e have he': "h e (wm\<lparr>signal := Some j\<rparr>) = (r', w2)"
        by (auto simp: try_except_def)
      from then_outcome[OF assms(2) sm first j(2) he he'] show ?thesis .
    qed
  qed
qed

lemma interruptible_if:
  "interruptible a \<Longrightarrow> interruptible b \<Longrightarrow> interruptible (if c then a else b)"
  by simp

lemma interruptible_logger_info: "interruptible (logger_info m)"
  unfolding logger_info_def by (rule interruptible_logged)

lemma interruptible_logger_error: "interruptible (logger_error m)"
  unfolding logger_error_def by (rule interruptible_logged)

lemma time_sleep_split:
  "time_sleep n = andthen (andthen checkpoint (\<lambda>u. emit (Sleep n))) (\<lambda>u. checkpoint)"
  by (rule ext) (simp add: time_sleep_def andthen_def split: prod.splits sum.splits)

lemma http_call_split:
  "http_call ev =
     andthen (andthen checkpoint (\<lambda>u. emit ev)) (\<lambda>u. andthen checkpoint (\<lambda>u. next_response))"
  by (rule ext) (simp add: http_call_def andthen_def split: prod.splits sum.splits)

lemma interruptible_time_sleep: "interruptible (time_sleep n)"
  unfolding time_sleep_split
  by (intro interruptible_andthen interruptible_logged interruptible_checkpoint)

lemma interruptible_http_call: "interruptible (http_call ev)"
  unfolding http_call_split
  by (intro interruptible_andthen interruptible_logged interruptible_checkpoint
      interruptible_next_response)

lemma interruptible_token_try: "interruptible (token_try cfg)"
  unfolding token_try_def requests_post_def
  by (intro interruptible_andthen interruptible_http_call interruptible_lift
      interruptible_logger_info)

lemma interruptible_token_except: "interruptible (token_except attempt e)"
  unfolding token_except_def
  by (intro interruptible_andthen interruptible_if interruptible_logger_error
      interruptible_logger_info interruptible_time_sleep interruptible_ret)

lemma interruptible_fetch_try: "interruptible (fetch_try cfg tok)"
  unfolding fetch_try_def requests_get_def
  by (intro interruptible_andthen interruptible_http_call interruptible_lift
      interruptible_logger_info)

lemma interruptible_fetch_except: "interruptible (fetch_except attempt e)"
  unfolding fetch_except_def
  by (intro interruptible_andthen interruptible_if interruptible_logger_error
      interruptible_logger_info interruptible_time_sleep interruptible_ret)

lemma interruptible_get_access_token_loop:
  "interruptible (get_access_token_loop cfg attempts)"
proof (induction attempts)
  case Nil
  have "get_access_token_loop cfg [] = (\<lambda>w. (Inr JNull, w))" by (rule ext) simp
  then show ?case by (simp add: interruptible_Inr)
next
  case (Cons attempt rest)
  show ?case
    unfolding get_access_token_loop_Cons
    by (intro interruptible_try_except interruptible_andthen interruptible_token_try
        interruptible_token_except Cons.IH) simp
qed

lemma interruptible_fetch_workday_data_loop:
  "interruptible (fetch_workday_data_loop cfg tok attempts)"
proof (induction attempts)
  case Nil
  have "fetch_workday_data_loop cfg tok [] = (\<lambda>w. (Inr JNull, w))" by (rule ext) simp
  then show ?case by (simp add: interruptible_Inr)
next
  case (Cons attempt rest)
  show ?case
    unfolding fetch_workday_data_loop_Cons
    by (intro interruptible_try_except interruptible_andthen interruptible_fetch_try
        interruptible_fetch_except Cons.IH) simp
qed

lemma interruptible_main: "interruptible (main cfg)"
  unfolding main_def log_data_def get_access_token_def fetch_workday_data_def
  by (intro interruptible_andthen interruptible_if interruptible_get_access_token_loop
      interruptible_fetch_workday_data_loop interruptible_logger_info interruptible_logger_error)

lemma interruptible_scheduler_iteration: "interruptible (scheduler_iteration cfg)"
  unfolding scheduler_iteration_def
  by (intro interruptible_andthen interruptible_try_except interruptible_main
      interruptible_logger_error interruptible_time_sleep) simp

lemma scheduler_loop_cut:
  assumes "signal w = None" and "k < n"
  shows "\<exists>w1 evs w2 pre.
           scheduler_loop n cfg w = (None, w1) \<and> trace w1 = trace w @ evs \<and>
           scheduler_loop n cfg (w\<lparr>signal := Some k\<rparr>) = (Some (SystemExit 0), w2) \<and>
           prefix pre evs \<and> length pre \<le> k \<and> trace w2 = trace w @ pre @ [shutdown_line]"
  using assms
proof (induction n arbitrary: w k)
  case 0
  then show ?case by simp
next
  case (Suc n)
  obtain r wa where a: "scheduler_iteration cfg w = (r, wa)"
    by (cases "scheduler_iteration cfg w")
  obtain r' wb where b: "scheduler_iteration cfg (w\<lparr>signal := Some k\<rparr>) = (r', wb)"
    by (cases "scheduler_iteration cfg (w\<lparr>signal := Some k\<rparr>)")
  obtain rm wm where m: "main cfg w = (rm, wm)" by (cases "main cfg w")
  from scheduler_iteration_run[OF Suc.prems(1) m] a have r: "r = Inr ()" by simp
  from interruptibleD[OF interruptible_scheduler_iteration Suc.prems(1) a b] obtain first where
    sa: "signal wa = None" and first: "trace wa = trace w @ first"
    and alt: "cut k first w r' wb \<or> same k first r wa r' wb"
    by blast
  have sk: "signal (w\<lparr>signal := Some k\<rparr>) = Some k" by simp
  from scheduler_loop_run[OF sa, of n cfg] obtain later where
    full: "scheduler_loop n cfg wa = (None, snd (scheduler_loop n cfg wa))"
      "trace (snd (scheduler_loop n cfg wa)) = trace wa @ later" by blast
  have step: "scheduler_loop (Suc n) cfg w = scheduler_loop n cfg wa" using a r by simp
  from alt show ?case
  proof
    assume c: "cut k first w r' wb"
    then obtain pre where pre: "r' = Inl (SystemExit 0)" "prefix pre first" "length pre \<le> k"
      "trace wb = trace w @ pre @ [shutdown_line]" unfolding cut_def by blast
    from pre(1) b have "scheduler_loop (Suc n) cfg (w\<lparr>signal := Some k\<rparr>) =
        (Some (SystemExit 0), wb)" by simp
    moreover from pre(2) have "prefix pre (first @ later)" by (rule prefix_prefix)
    moreover from full(2) first have
      "trace (snd (scheduler_loop n cfg wa)) = trace w @ (first @ later)" by simp
    ultimately show ?thesis using step full(1) pre(3,4) by metis
  next
    assume "same k first r wa r' wb"
    then obtain j where j: "r' = Inr ()" "length first + j \<le> k" "wb = wa\<lparr>signal := Some j\<rparr>"
      using r unfolding same_def by blast
    from yieldsD[OF yields_scheduler_iteration sk b] j(1) have "went_on True never k r' wb"
      by (auto simp: shut_down_def)
    with j(3) have "j < k" by (auto simp: went_on_def)
    with Suc.prems(2) have jn: "j < n" by simp
    from Suc.IH[OF sa jn] obtain w1 evs w2 pre where ih:
      "scheduler_loop n cfg wa = (None, w1)" "trace w1 = trace wa @ evs"
      "scheduler_loop n cfg (wa\<lparr>signal := Some j\<rparr>) = (Some (SystemExit 0), w2)"
      "prefix pre evs" "length pre \<le> j" "trace w2 = trace wa @ pre @ [shutdown_line]" by blast
    have step': "scheduler_loop (Suc n) cfg (w\<lparr>signal := Some k\<rparr>) =
        scheduler_loop n cfg (wa\<lparr>signal := Some j\<rparr>)" using b j by simp
    from ih(4) have "prefix (first @ pre) (first @ evs)" by simp
    moreover from ih(5) j(2) have "length (first @ pre) \<le> k" by simp
    moreover from ih(2) first have "trace w1 = trace w @ (first @ evs)" by simp
    moreover from ih(6) first have "trace w2 = trace w @ (first @ pre) @ [shutdown_line]" by simp
    ultimately show ?thesis using step step' ih(1,3) by metis
  qed
qed

section \<open>The claims\<close>

text \<open>
  C1. \<^verbatim>\<open>get_access_token\<close> makes at most three POST attempts and sleeps 10 seconds between
  two consecutive attempts, never after the last: whatever the token endpoint does, the
  requests and sleeps of one call are one POST, or POST, sleep, POST, or POST, sleep, POST,
  sleep, POST. When the first \<open>k < 3\<close> attempts fail (a \<^verbatim>\<open>RequestException\<close> from the call,
  or a 4xx or 5xx status) and the next one answers 2xx with a JSON object holding
  \<^verbatim>\<open>access_token\<close>, it returns that attempt's token after \<open>k\<close> waits of 10 seconds. When
  all three attempts fail it returns \<^verbatim>\<open>None\<close> after two waits, and does not raise.
  No signal arrives during the call.
\<close>

theorem get_access_token_retries:
  assumes "signal w = None"
  shows "(\<exists>r w' evs. get_access_token cfg w = (r, w') \<and> trace w' = trace w @ evs \<and>
            filter is_io evs \<in> set [[token_post cfg],
                                       [token_post cfg, Sleep 10, token_post cfg],
                                       [token_post cfg, Sleep 10, token_post cfg, Sleep 10, token_post cfg]])
       \<and> (\<forall>k tok. k < 3 \<and> (\<forall>i < k. attempt_fails (net w (calls w + i))) \<and>
                   attempt_yields ''access_token'' (net w (calls w + k)) tok \<longrightarrow>
            (\<exists>evs. get_access_token cfg w =
                      (Inr tok, w\<lparr>trace := trace w @ evs, calls := calls w + Suc k\<rparr>) \<and>
                    filter is_io evs =
                      concat (replicate k [token_post cfg, Sleep 10]) @ [token_post cfg]))
       \<and> ((\<forall>i < 3. attempt_fails (net w (calls w + i))) \<longrightarrow>
            (\<exists>evs. get_access_token cfg w =
                      (Inr JNull, w\<lparr>trace := trace w @ evs, calls := calls w + 3\<rparr>) \<and>
                    filter is_io evs =
                      [token_post cfg, Sleep 10, token_post cfg, Sleep 10, token_post cfg]))"
proof (intro conjI allI impI)
  obtain r w' where run: "get_access_token cfg w = (r, w')" by (cases "get_access_token cfg w")
  from loop_io[OF assms run[unfolded get_access_token_def]] obtain evs where
    evs: "trace w' = trace w @ evs"
    "filter is_io evs = concat (map (token_round cfg) [0, 1, 2]) \<or>
     (\<exists>k < length [0::nat, 1, 2].
        filter is_io evs = concat (map (token_round cfg) (take k [0, 1, 2])) @ [token_post cfg])"
    by blast
  have "filter is_io evs \<in> set [[token_post cfg],
                                       [token_post cfg, Sleep 10, token_post cfg],
                                       [token_post cfg, Sleep 10, token_post cfg, Sleep 10, token_post cfg]]"
    using evs(2)
  proof
    assume "filter is_io evs = concat (map (token_round cfg) [0, 1, 2])"
    then show ?thesis unfolding rounds_all by simp
  next
    assume "\<exists>k < length [0::nat, 1, 2].
        filter is_io evs = concat (map (token_round cfg) (take k [0, 1, 2])) @ [token_post cfg]"
    then obtain k where k: "k < length [0::nat, 1, 2]"
      "filter is_io evs = concat (map (token_round cfg) (take k [0, 1, 2])) @ [token_post cfg]"
      by blast
    from k(1) have k3: "k < 3" by simp
    note shape = k(2)[unfolded rounds[OF k3]]
    from k3 consider "k = 0" | "k = 1" | "k = 2" by arith
    then show ?thesis
    proof cases
      case 1
      with shape show ?thesis by simp
    next
      case 2
      with shape show ?thesis by simp
    next
      case 3
      with shape show ?thesis by (simp add: numeral_2_eq_2)
    qed
  qed
  with run evs(1) show "\<exists>r w' evs. get_access_token cfg w = (r, w') \<and> trace w' = trace w @ evs \<and>
            filter is_io evs \<in> set [[token_post cfg],
                                       [token_post cfg, Sleep 10, token_post cfg],
                                       [token_post cfg, Sleep 10, token_post cfg, Sleep 10, token_post cfg]]"
    by blast
next
  fix k tok
  assume h: "k < 3 \<and> (\<forall>i < k. attempt_fails (net w (calls w + i))) \<and>
             attempt_yields ''access_token'' (net w (calls w + k)) tok"
  then have k: "k < length [0::nat, 1, 2]" by simp
  from loop_fail_then_yield[OF assms k, of tok cfg] h obtain evs where
    run: "get_access_token_loop cfg [0, 1, 2] w =
            (Inr tok, w\<lparr>trace := trace w @ evs, calls := calls w + Suc k\<rparr>)"
    and io: "filter is_io evs =
            concat (map (token_round cfg) (take k [0, 1, 2])) @ [token_post cfg]" by blast
  from h have "concat (map (token_round cfg) (take k [0, 1, 2])) =
             concat (replicate k [token_post cfg, Sleep 10])"
    using rounds[of k cfg] by blast
  with run io show "\<exists>evs. get_access_token cfg w =
                      (Inr tok, w\<lparr>trace := trace w @ evs, calls := calls w + Suc k\<rparr>) \<and>
                    filter is_io evs =
                      concat (replicate k [token_post cfg, Sleep 10]) @ [token_post cfg]"
    unfolding get_access_token_def
    by (intro exI[of _ evs]) (simp del: get_access_token_loop.simps)
next
  assume h: "\<forall>i < 3. attempt_fails (net w (calls w + i))"
  then have "\<forall>i < length [0::nat, 1, 2]. attempt_fails (net w (calls w + i))" by simp
  from loop_all_fail[OF assms this, of cfg] obtain evs where
    run: "get_access_token_loop cfg [0, 1, 2] w =
            (Inr JNull, w\<lparr>trace := trace w @ evs, calls := calls w + length [0::nat, 1, 2]\<rparr>)"
    and io: "filter is_io evs = concat (map (token_round cfg) [0, 1, 2])" by blast
  from io have "filter is_io evs =
      [token_post cfg, Sleep 10, token_post cfg, Sleep 10, token_post cfg]"
    unfolding rounds_all .
  with run show "\<exists>evs. get_access_token cfg w =
                      (Inr JNull, w\<lparr>trace := trace w @ evs, calls := calls w + 3\<rparr>) \<and>
                    filter is_io evs =
                      [token_post cfg, Sleep 10, token_post cfg, Sleep 10, token_post cfg]"
    unfolding get_access_token_def
    by (intro exI[of _ evs]) (simp del: get_access_token_loop.simps)
qed

text \<open>
  The spec's own test: the endpoint answers 503 twice and then 200 with a token; the
  third attempt's token comes back after two waits of 10 seconds. And with the endpoint
  down, three attempts are made and the result is \<^verbatim>\<open>None\<close>.
\<close>

theorem get_access_token_retries_witness:
  "(\<exists>evs. get_access_token demo_settings world_flaky =
            (Inr (JString ''third''),
             world_flaky\<lparr>trace := trace world_flaky @ evs, calls := calls world_flaky + 3\<rparr>) \<and>
          filter is_io evs =
            [token_post demo_settings, Sleep 10, token_post demo_settings, Sleep 10,
             token_post demo_settings])
   \<and> (\<exists>evs. get_access_token demo_settings world_down =
            (Inr JNull,
             world_down\<lparr>trace := trace world_down @ evs, calls := calls world_down + 3\<rparr>) \<and>
          filter is_io evs =
            [token_post demo_settings, Sleep 10, token_post demo_settings, Sleep 10,
             token_post demo_settings])"
proof
  have s: "signal world_flaky = None" by (simp add: scenario_defs)
  have h: "(2::nat) < 3 \<and> (\<forall>i < 2. attempt_fails (net world_flaky (calls world_flaky + i))) \<and>
      attempt_yields ''access_token'' (net world_flaky (calls world_flaky + 2)) (JString ''third'')"
    by (simp add: scenario_defs is_error_status_def all_less_two)
  from get_access_token_retries[OF s, of demo_settings, THEN conjunct2, THEN conjunct1,
      rule_format, OF h]
  show "\<exists>evs. get_access_token demo_settings world_flaky =
            (Inr (JString ''third''),
             world_flaky\<lparr>trace := trace world_flaky @ evs, calls := calls world_flaky + 3\<rparr>) \<and>
          filter is_io evs =
            [token_post demo_settings, Sleep 10, token_post demo_settings, Sleep 10,
             token_post demo_settings]"
    by (simp add: numeral_2_eq_2 numeral_3_eq_3)
next
  have s: "signal world_down = None" by (simp add: scenario_defs)
  have h: "\<forall>i < 3. attempt_fails (net world_down (calls world_down + i))"
    by (simp add: scenario_defs)
  from get_access_token_retries[OF s, of demo_settings, THEN conjunct2, THEN conjunct2,
      THEN mp, OF h]
  show "\<exists>evs. get_access_token demo_settings world_down =
            (Inr JNull,
             world_down\<lparr>trace := trace world_down @ evs, calls := calls world_down + 3\<rparr>) \<and>
          filter is_io evs =
            [token_post demo_settings, Sleep 10, token_post demo_settings, Sleep 10,
             token_post demo_settings]" .
qed

text \<open>
  C2, as the code has it. \<^verbatim>\<open>main\<close> has no \<^verbatim>\<open>try\<close> of its own. What it absorbs is what the
  two request functions catch: every \<^verbatim>\<open>RequestException\<close>, so that no transport error and no
  4xx or 5xx status ever leaves it, and three such failures of either endpoint end the
  cycle normally. Any other exception leaves \<^verbatim>\<open>main\<close>; it is an \<^verbatim>\<open>Exception\<close>, and the
  turn of the scheduler loop around \<^verbatim>\<open>main\<close> returns normally all the same. No signal
  arrives during the cycle.
\<close>

theorem main_lets_unanticipated_escape:
  assumes "signal w = None"
  shows "(\<forall>e w'. main cfg w = (Inl e, w') \<longrightarrow> is_Exception e \<and> \<not> is_RequestException e)
       \<and> (\<exists>w'. scheduler_iteration cfg w = (Inr (), w'))
       \<and> ((\<forall>i < 3. attempt_fails (net w (calls w + i))) \<longrightarrow> fst (main cfg w) = Inr ())
       \<and> (\<forall>tok w1. get_access_token cfg w = (Inr tok, w1) \<and> truthy tok \<and>
                    (\<forall>i < 3. attempt_fails (net w1 (calls w1 + i))) \<longrightarrow>
             fst (main cfg w) = Inr ())"
proof -
  have p1: "is_Exception e \<and> \<not> is_RequestException e" if "main cfg w = (Inl e, w')" for e w'
    using staysD(3)[OF stays_main assms that] by (simp add: unanticipated_def)
  obtain r w1 where m: "main cfg w = (r, w1)" by (cases "main cfg w")
  from scheduler_iteration_run[OF assms m]
  have p2: "\<exists>w'. scheduler_iteration cfg w = (Inr (), w')" by blast
  have p3: "fst (main cfg w) = Inr ()" if "\<forall>i < 3. attempt_fails (net w (calls w + i))"
  proof -
    from that have "\<forall>i < length [0::nat, 1, 2]. attempt_fails (net w (calls w + i))" by simp
    from loop_all_fail[OF assms this, of cfg] obtain w1 where
      run: "get_access_token cfg w = (Inr JNull, w1)"
      unfolding get_access_token_def by blast
    note t = staysD(1)[OF stays_get_access_token assms run]
    from run t show ?thesis
      by (simp add: main_def andthen_def logger_error_run)
  qed
  have p4: "fst (main cfg w) = Inr ()"
    if h: "get_access_token cfg w = (Inr tok, w1) \<and> truthy tok \<and>
           (\<forall>i < 3. attempt_fails (net w1 (calls w1 + i)))" for tok w1
  proof -
    from h have run: "get_access_token cfg w = (Inr tok, w1)" and tok: "truthy tok"
      and fails: "\<forall>i < length [0::nat, 1, 2]. attempt_fails (net w1 (calls w1 + i))"
      by simp_all
    note t = staysD(1)[OF stays_get_access_token assms run]
    from fetch_loop_all_fail[OF t fails, of cfg tok] obtain w2 where
      f: "fetch_workday_data cfg tok w1 = (Inr JNull, w2)"
      unfolding fetch_workday_data_def by blast
    note t2 = staysD(1)[OF stays_fetch_workday_data t f]
    from run tok f t2 show ?thesis
      by (simp add: main_def andthen_def logger_error_run)
  qed
  from p1 p2 p3 p4 show ?thesis by blast
qed

theorem main_lets_unanticipated_escape_witness:
  "fst (main demo_settings world_no_key) = Inl (KeyError ''access_token'')
   \<and> is_Exception (KeyError ''access_token'')
   \<and> \<not> is_RequestException (KeyError ''access_token'')
   \<and> (\<exists>w'. scheduler_iteration demo_settings world_no_key = (Inr (), w'))
   \<and> fst (main demo_settings world_down) = Inr ()"
proof -
  have s: "signal world_no_key = None" by (simp add: scenario_defs)
  have s': "signal world_down = None" by (simp add: scenario_defs)
  have h: "\<forall>i < 3. attempt_fails (net world_down (calls world_down + i))"
    by (simp add: scenario_defs)
  note a = main_lets_unanticipated_escape[OF s, of demo_settings]
  note b = main_lets_unanticipated_escape[OF s', of demo_settings]
  from a have "is_Exception (KeyError ''access_token'')
      \<and> \<not> is_RequestException (KeyError ''access_token'')"
    using main_no_key by blast
  moreover from a have "\<exists>w'. scheduler_iteration demo_settings world_no_key = (Inr (), w')"
    by blast
  moreover from b h have "fst (main demo_settings world_down) = Inr ()" by blast
  ultimately show ?thesis using main_no_key by simp
qed

text \<open>
  C2 as stated fails: the token endpoint answers 200 with the JSON object \<^verbatim>\<open>{}\<close>, and
  \<^verbatim>\<open>main\<close> raises \<^verbatim>\<open>KeyError\<close>.
\<close>

theorem main_raises_key_error:
  "fst (main demo_settings world_no_key) = Inl (KeyError ''access_token'')"
  by (simp add: main_no_key)

text \<open>
  C3, as the code has it. \<^verbatim>\<open>main\<close> tests the fetched payload with \<^verbatim>\<open>if data:\<close>. For every
  truthy payload that \<^verbatim>\<open>fetch_workday_data\<close> returns (a non-empty object, array or
  string, a non-zero number, \<^verbatim>\<open>true\<close>), the cycle writes exactly one payload line, the
  \<^verbatim>\<open>json.dumps\<close> of that payload, and no \<^verbatim>\<open>No data fetched from Workday\<close> error. No signal
  arrives during the cycle.
\<close>

theorem main_logs_truthy_payload:
  assumes "signal w = None" and "get_access_token cfg w = (Inr tok, w1)" and "truthy tok"
    and "fetch_workday_data cfg tok w1 = (Inr data, w2)" and "truthy data"
  shows "\<exists>evs. main cfg w = (Inr (), w2\<lparr>trace := trace w @ evs\<rparr>)
           \<and> filter is_payload_line evs = [Log INFO (JsonDumps data)]
           \<and> Log ERROR (Text ''No data fetched from Workday'') \<notin> set evs"
proof -
  from main_after_fetch[OF assms(1-4)] assms(5) obtain a b where
    run: "main cfg w = (Inr (), w2\<lparr>trace := trace w @ a @ b @ [Log INFO (JsonDumps data)]\<rparr>)"
    and a: "list_all token_event a" and b: "list_all fetch_event b" by auto
  let ?evs = "a @ b @ [Log INFO (JsonDumps data)]"
  have "filter is_payload_line ?evs = [Log INFO (JsonDumps data)]"
    using token_events_quiet(2)[OF a] fetch_events_quiet(1)[OF b] by simp
  moreover have "Log ERROR (Text ''No data fetched from Workday'') \<notin> set ?evs"
    using token_events_quiet(3)[OF a] fetch_events_quiet(2)[OF b] by simp
  ultimately show ?thesis using run by blast
qed

text \<open>The spec's test: the payload \<^verbatim>\<open>{"employees": []}\<close> gives one line, that payload.\<close>

theorem main_logs_truthy_payload_witness:
  "\<exists>w2 evs. main demo_settings world_good = (Inr (), w2\<lparr>trace := trace world_good @ evs\<rparr>)
     \<and> filter is_payload_line evs = [Log INFO (JsonDumps employees)]
     \<and> Log ERROR (Text ''No data fetched from Workday'') \<notin> set evs"
proof -
  have s: "signal world_good = None" by (simp add: scenario_defs)
  have t: "truthy (JString ''t'')" "truthy employees" by (simp_all add: employees_def)
  from main_logs_truthy_payload[OF s run_good(1) t(1) run_good(2) t(2)]
  show ?thesis by blast
qed

text \<open>
  C3 as stated fails for a falsy payload: the fetcher returns the empty object, and the
  cycle writes no payload line but the error.
\<close>

theorem main_drops_empty_payload:
  "fst (fetch_workday_data demo_settings (JString ''t'')
          (snd (get_access_token demo_settings world_empty_payload))) = Inr (JObject [])
   \<and> filter is_payload_line (trace (snd (main demo_settings world_empty_payload))) = []
   \<and> Log ERROR (Text ''No data fetched from Workday'')
       \<in> set (trace (snd (main demo_settings world_empty_payload)))"
proof -
  have s: "signal world_empty_payload = None" by (simp add: scenario_defs)
  have t: "truthy (JString ''t'')" by simp
  let ?w2 = "world_empty_payload\<lparr>trace := [token_post demo_settings,
                             Log INFO (Text ''Successfully obtained access token''),
                             HttpGet (rest_api_endpoint demo_settings) (JString ''t''),
                             Log INFO (Text ''Successfully fetched data from Workday'')],
                  calls := 2\<rparr>"
  let ?line = "Log ERROR (Text ''No data fetched from Workday'')"
  from main_after_fetch[OF s run_empty_payload(1) t run_empty_payload(2)] obtain a b where
    run: "main demo_settings world_empty_payload =
            (Inr (), ?w2\<lparr>trace := trace world_empty_payload @ a @ b @
               [if truthy (JObject []) then Log INFO (JsonDumps (JObject [])) else ?line]\<rparr>)"
    and a: "list_all token_event a" and b: "list_all fetch_event b" by blast
  have "filter is_payload_line (a @ b @ [?line]) = []"
    using token_events_quiet(2)[OF a] fetch_events_quiet(1)[OF b] by simp
  moreover have "trace world_empty_payload = []" by (simp add: scenario_defs)
  ultimately show ?thesis using run run_empty_payload by simp
qed

text \<open>
  C4 against the code. An attempt that fails with a 4xx or 5xx status carries its
  response: \<^verbatim>\<open>raise_for_status\<close> raises \<^verbatim>\<open>HTTPError(response=self)\<close>. For every such
  response, whatever its body, the \<^verbatim>\<open>except\<close> block of either request function logs the
  error line and, before the last attempt, the retry line, and no \<^verbatim>\<open>Response content\<close>
  line: \<^verbatim>\<open>if e.response:\<close> asks for the truth value of the response, which is false for
  every 4xx and 5xx status. No signal arrives.
\<close>

theorem http_error_body_not_logged:
  assumes "signal w = None" and "is_error_status (status_code r)"
  shows "raise_for_status r = Inl (RequestException ''HTTPError'' (Some r))
       \<and> token_except attempt (RequestException ''HTTPError'' (Some r)) w =
           (Inr (), w\<lparr>trace := trace w @
              Log ERROR (TextExc ''Error obtaining access token: ''
                           (RequestException ''HTTPError'' (Some r))) #
              (if attempt < 2
               then [Log INFO (Text ''Retrying to obtain access token...''), Sleep 10]
               else [])\<rparr>)
       \<and> fetch_except attempt (RequestException ''HTTPError'' (Some r)) w =
           (Inr (), w\<lparr>trace := trace w @
              Log ERROR (TextExc ''Error fetching data from Workday: ''
                           (RequestException ''HTTPError'' (Some r))) #
              (if attempt < 2
               then [Log INFO (Text ''Retrying to fetch data from Workday...''), Sleep 10]
               else [])\<rparr>)"
  using assms
  by (simp add: raise_for_status_def token_except_def fetch_except_def andthen_def ret_def
      logger_error_run logger_info_run time_sleep_run response_bool_def)

text \<open>
  The endpoints answer 500 with the body \<^verbatim>\<open>oops\<close>: three attempts, three error lines,
  the body in none of the lines.
\<close>

theorem http_error_body_not_logged_witness:
  "token_except 2 (RequestException ''HTTPError'' (Some response_500)) world_500 =
     (Inr (), world_500\<lparr>trace := trace world_500 @
        [Log ERROR (TextExc ''Error obtaining access token: ''
                      (RequestException ''HTTPError'' (Some response_500)))]\<rparr>)
   \<and> content response_500 = ''oops''
   \<and> get_access_token demo_settings world_500 =
     (Inr JNull,
      world_500
        \<lparr>trace := [token_post demo_settings,
                    Log ERROR (TextExc ''Error obtaining access token: ''
                                 (RequestException ''HTTPError'' (Some response_500))),
                    Log INFO (Text ''Retrying to obtain access token...''),
                    Sleep 10,
                    token_post demo_settings,
                    Log ERROR (TextExc ''Error obtaining access token: ''
                                 (RequestException ''HTTPError'' (Some response_500))),
                    Log INFO (Text ''Retrying to obtain access token...''),
                    Sleep 10,
                    token_post demo_settings,
                    Log ERROR (TextExc ''Error obtaining access token: ''
                                 (RequestException ''HTTPError'' (Some response_500)))],
         calls := 3\<rparr>)
   \<and> filter is_body_line
        (trace (snd (fetch_workday_data demo_settings (JString ''t'') world_500))) = []"
proof -
  have s: "signal world_500 = None" by (simp add: scenario_defs)
  have e: "is_error_status (status_code response_500)"
    by (simp add: response_500_def is_error_status_def)
  from http_error_body_not_logged[OF s e, of 2]
  have "token_except 2 (RequestException ''HTTPError'' (Some response_500)) world_500 =
     (Inr (), world_500\<lparr>trace := trace world_500 @
        [Log ERROR (TextExc ''Error obtaining access token: ''
                      (RequestException ''HTTPError'' (Some response_500)))]\<rparr>)"
    by simp
  moreover have "content response_500 = ''oops''" by (simp add: response_500_def)
  moreover have "get_access_token demo_settings world_500 =
     (Inr JNull,
      world_500
        \<lparr>trace := [token_post demo_settings,
                    Log ERROR (TextExc ''Error obtaining access token: ''
                                 (RequestException ''HTTPError'' (Some response_500))),
                    Log INFO (Text ''Retrying to obtain access token...''),
                    Sleep 10,
                    token_post demo_settings,
                    Log ERROR (TextExc ''Error obtaining access token: ''
                                 (RequestException ''HTTPError'' (Some response_500))),
                    Log INFO (Text ''Retrying to obtain access token...''),
                    Sleep 10,
                    token_post demo_settings,
                    Log ERROR (TextExc ''Error obtaining access token: ''
                                 (RequestException ''HTTPError'' (Some response_500)))],
         calls := 3\<rparr>)"
    by (simp add: run_defs scenario_defs token_post_def demo_settings_def numeral_3_eq_3)
  moreover have "filter is_body_line
        (trace (snd (fetch_workday_data demo_settings (JString ''t'') world_500))) = []"
    by (simp add: run_defs scenario_defs demo_settings_def)
  ultimately show ?thesis by blast
qed

text \<open>
  C5. In a cycle in which \<^verbatim>\<open>get_access_token\<close> returns \<^verbatim>\<open>None\<close>, \<^verbatim>\<open>main\<close> returns
  normally, the last thing it does is log the error \<^verbatim>\<open>Failed to obtain access token\<close>,
  and the cycle makes no GET request. No signal arrives during the cycle.
\<close>

theorem main_token_failure_no_fetch:
  assumes "signal w = None" and "get_access_token cfg w = (Inr JNull, w1)"
  shows "\<exists>evs. main cfg w = (Inr (), w1\<lparr>trace := trace w @ evs\<rparr>)
           \<and> last evs = Log ERROR (Text ''Failed to obtain access token'')
           \<and> filter is_get evs = []"
proof -
  note t = staysD[OF stays_get_access_token assms]
  from t(2) obtain evs where evs: "trace w1 = trace w @ evs" "list_all token_event evs"
    by blast
  let ?line = "Log ERROR (Text ''Failed to obtain access token'')"
  have "main cfg w = (Inr (), w1\<lparr>trace := trace w1 @ [?line]\<rparr>)"
    using assms(2) t(1) by (simp add: main_def andthen_def logger_error_run)
  then have "main cfg w = (Inr (), w1\<lparr>trace := trace w @ (evs @ [?line])\<rparr>)"
    using evs(1) by simp
  moreover have "last (evs @ [?line]) = ?line" by simp
  moreover have "filter is_get (evs @ [?line]) = []"
    using token_events_quiet(1)[OF evs(2)] by simp
  ultimately show ?thesis by blast
qed

theorem main_token_failure_no_fetch_witness:
  "\<exists>w1 evs. get_access_token demo_settings world_down = (Inr JNull, w1)
     \<and> main demo_settings world_down = (Inr (), w1\<lparr>trace := trace world_down @ evs\<rparr>)
     \<and> last evs = Log ERROR (Text ''Failed to obtain access token'')
     \<and> filter is_get evs = []"
proof -
  have s: "signal world_down = None" by (simp add: scenario_defs)
  have "\<forall>i < length [0::nat, 1, 2]. attempt_fails (net world_down (calls world_down + i))"
    by (simp add: scenario_defs)
  from loop_all_fail[OF s this, of demo_settings] obtain w1 where
    run: "get_access_token demo_settings world_down = (Inr JNull, w1)"
    unfolding get_access_token_def by blast
  from main_token_failure_no_fetch[OF s run] run show ?thesis by blast
qed

text \<open>
  C6. For a configuration object without \<^verbatim>\<open>workday\<close>, or without \<^verbatim>\<open>log_file_path\<close>, or
  whose \<^verbatim>\<open>workday\<close> object lacks one of the five required keys, the process prints one of
  the two configuration errors, exits with status 1 and does nothing else: the trace gains
  that one printed line, so no POST and no GET is made, whatever the network would answer.
\<close>

theorem startup_rejects_missing_fields:
  assumes "map_of kvs ''workday'' = None \<or> map_of kvs ''log_file_path'' = None \<or>
           (\<exists>wd key. map_of kvs ''workday'' = Some (JObject wd) \<and>
                      key \<in> set required_workday_keys \<and> map_of wd key = None)"
  shows "\<exists>msg. process n (JObject kvs) w = (Some (SystemExit 1), w\<lparr>trace := trace w @ [Print msg]\<rparr>)
           \<and> msg \<in> set [config_error_1, config_error_2] \<and> exit_status (SystemExit 1) \<noteq> 0"
proof -
  let ?quit1 = "(Inl (SystemExit 1), w\<lparr>trace := trace w @ [Print config_error_1]\<rparr>)"
  let ?quit2 = "(Inl (SystemExit 1), w\<lparr>trace := trace w @ [Print config_error_2]\<rparr>)"
  have "startup (JObject kvs) w = ?quit1 \<or> startup (JObject kvs) w = ?quit2"
    using assms
  proof (elim disjE exE conjE)
    assume "map_of kvs ''workday'' = None"
    then have "startup (JObject kvs) w = ?quit1"
      by (simp add: startup_def andthen_def lift_def emit_def sys_exit_def raise_def)
    then show ?thesis ..
  next
    assume "map_of kvs ''log_file_path'' = None"
    then have "startup (JObject kvs) w = ?quit1"
      by (simp add: startup_def andthen_def lift_def emit_def sys_exit_def raise_def)
    then show ?thesis ..
  next
    fix wd key
    assume wd: "map_of kvs ''workday'' = Some (JObject wd)"
      and key: "key \<in> set required_workday_keys" "map_of wd key = None"
    from key have "all_contains (JObject wd) required_workday_keys = Inr False"
      unfolding all_contains_object by auto
    with wd show ?thesis
      by (simp add: startup_def andthen_def lift_def emit_def sys_exit_def raise_def)
  qed
  then show ?thesis by (auto simp: process_def)
qed

theorem startup_rejects_missing_fields_witness:
  "(\<exists>msg. process 5 (JObject [(''log_file_path'', JString ''workday.log'')]) world_good =
       (Some (SystemExit 1), world_good\<lparr>trace := trace world_good @ [Print msg]\<rparr>)
       \<and> msg \<in> set [config_error_1, config_error_2] \<and> exit_status (SystemExit 1) \<noteq> 0)
   \<and> (\<exists>msg. process 5 (JObject [(''workday'', JObject workday_without_secret)]) world_good =
       (Some (SystemExit 1), world_good\<lparr>trace := trace world_good @ [Print msg]\<rparr>)
       \<and> msg \<in> set [config_error_1, config_error_2] \<and> exit_status (SystemExit 1) \<noteq> 0)
   \<and> (\<exists>msg. process 5 (config_of workday_without_secret) world_good =
       (Some (SystemExit 1), world_good\<lparr>trace := trace world_good @ [Print msg]\<rparr>)
       \<and> msg \<in> set [config_error_1, config_error_2] \<and> exit_status (SystemExit 1) \<noteq> 0)"
proof (intro conjI)
  have "map_of [(''log_file_path'', JString ''workday.log'')] ''workday'' = None" by simp
  then show "\<exists>msg. process 5 (JObject [(''log_file_path'', JString ''workday.log'')]) world_good =
       (Some (SystemExit 1), world_good\<lparr>trace := trace world_good @ [Print msg]\<rparr>)
       \<and> msg \<in> set [config_error_1, config_error_2] \<and> exit_status (SystemExit 1) \<noteq> 0"
    by (intro startup_rejects_missing_fields) blast
next
  have "map_of [(''workday'', JObject workday_without_secret)] ''log_file_path'' = None" by simp
  then show "\<exists>msg. process 5 (JObject [(''workday'', JObject workday_without_secret)]) world_good =
       (Some (SystemExit 1), world_good\<lparr>trace := trace world_good @ [Print msg]\<rparr>)
       \<and> msg \<in> set [config_error_1, config_error_2] \<and> exit_status (SystemExit 1) \<noteq> 0"
    by (intro startup_rejects_missing_fields) blast
next
  let ?kvs = "[(''workday'', JObject workday_without_secret),
               (''log_file_path'', JString ''workday.log'')]"
  have "map_of ?kvs ''workday'' = Some (JObject workday_without_secret) \<and>
        ''client_secret'' \<in> set required_workday_keys \<and>
        map_of workday_without_secret ''client_secret'' = None"
    by (simp add: required_workday_keys_def workday_without_secret_def)
  then have "\<exists>msg. process 5 (JObject ?kvs) world_good =
       (Some (SystemExit 1), world_good\<lparr>trace := trace world_good @ [Print msg]\<rparr>)
       \<and> msg \<in> set [config_error_1, config_error_2] \<and> exit_status (SystemExit 1) \<noteq> 0"
    by (intro startup_rejects_missing_fields) blast
  then show "\<exists>msg. process 5 (config_of workday_without_secret) world_good =
       (Some (SystemExit 1), world_good\<lparr>trace := trace world_good @ [Print msg]\<rparr>)
       \<and> msg \<in> set [config_error_1, config_error_2] \<and> exit_status (SystemExit 1) \<noteq> 0"
    by (simp add: config_of_def)
qed

text \<open>
  C7, as the code has it. The validation tests \<^verbatim>\<open>workday\<close> and \<^verbatim>\<open>log_file_path\<close> for
  truth and the five sub-fields for presence (\<^verbatim>\<open>key in workday_config\<close>). A configuration
  with which startup reaches the loop has a non-empty \<^verbatim>\<open>workday\<close> object that holds all
  five keys, and a \<^verbatim>\<open>log_file_path\<close> that is a non-empty string (the log handler refuses
  anything but a string); the settings are the values found under these keys, whatever
  they are.
\<close>

theorem startup_establishes:
  assumes "startup config w = (Inr cfg, w')"
  shows "\<exists>kvs wd p. config = JObject kvs \<and> w' = w
           \<and> map_of kvs ''workday'' = Some (JObject wd) \<and> wd \<noteq> []
           \<and> map_of kvs ''log_file_path'' = Some (JString p) \<and> p \<noteq> []
           \<and> log_file_path cfg = JString p
           \<and> map_of wd ''rest_api_endpoint'' = Some (rest_api_endpoint cfg)
           \<and> map_of wd ''token_endpoint'' = Some (token_endpoint cfg)
           \<and> map_of wd ''client_id'' = Some (client_id cfg)
           \<and> map_of wd ''client_secret'' = Some (client_secret cfg)
           \<and> map_of wd ''refresh_token'' = Some (refresh_token cfg)"
proof -
  obtain kvs where config: "config = JObject kvs"
    using assms by (cases config) (auto simp: startup_def andthen_def lift_def)
  define workday where "workday = (case map_of kvs ''workday'' of None \<Rightarrow> JNull | Some v \<Rightarrow> v)"
  define path where "path = (case map_of kvs ''log_file_path'' of None \<Rightarrow> JNull | Some v \<Rightarrow> v)"
  have pass1: "truthy workday" "truthy path"
    using assms unfolding config workday_def path_def
    by (auto simp: startup_def andthen_def lift_def emit_def sys_exit_def raise_def
        split: if_splits)
  have rest: "andthen (lift (all_contains workday required_workday_keys)) (\<lambda>present.
       if \<not> present then
         andthen (emit (Print config_error_2)) (\<lambda>_. sys_exit 1)
       else
         andthen (TimedRotatingFileHandler path) (\<lambda>_.
         andthen (lift (subscript workday ''rest_api_endpoint'')) (\<lambda>v1.
         andthen (lift (subscript workday ''token_endpoint'')) (\<lambda>v2.
         andthen (lift (subscript workday ''client_id'')) (\<lambda>v3.
         andthen (lift (subscript workday ''client_secret'')) (\<lambda>v4.
         andthen (lift (subscript workday ''refresh_token'')) (\<lambda>v5.
         ret \<lparr>rest_api_endpoint = v1, token_endpoint = v2, client_id = v3,
              client_secret = v4, refresh_token = v5, log_file_path = path\<rparr>))))))) w
       = (Inr cfg, w')"
    using assms pass1 unfolding config workday_def path_def
    by (simp add: startup_def andthen_def lift_def)
  then obtain u where handler: "TimedRotatingFileHandler path w = (Inr u, w)"
    and tail: "andthen (lift (subscript workday ''rest_api_endpoint'')) (\<lambda>v1.
         andthen (lift (subscript workday ''token_endpoint'')) (\<lambda>v2.
         andthen (lift (subscript workday ''client_id'')) (\<lambda>v3.
         andthen (lift (subscript workday ''client_secret'')) (\<lambda>v4.
         andthen (lift (subscript workday ''refresh_token'')) (\<lambda>v5.
         ret \<lparr>rest_api_endpoint = v1, token_endpoint = v2, client_id = v3,
              client_secret = v4, refresh_token = v5, log_file_path = path\<rparr>))))) w
       = (Inr cfg, w')"
    by (auto simp: andthen_def lift_def emit_def sys_exit_def raise_def
        split: sum.splits if_splits prod.splits dest: TimedRotatingFileHandler_Inr)
  from TimedRotatingFileHandler_Inr[OF handler] obtain p where p: "path = JString p" by blast
  with pass1(2) have p0: "p \<noteq> []" by simp
  from tail obtain v1 v2 v3 v4 v5 where
    v: "subscript workday ''rest_api_endpoint'' = Inr v1"
       "subscript workday ''token_endpoint'' = Inr v2"
       "subscript workday ''client_id'' = Inr v3"
       "subscript workday ''client_secret'' = Inr v4"
       "subscript workday ''refresh_token'' = Inr v5"
    and cfg: "cfg = \<lparr>rest_api_endpoint = v1, token_endpoint = v2, client_id = v3,
              client_secret = v4, refresh_token = v5, log_file_path = path\<rparr>"
    and w': "w' = w"
    by (auto simp: andthen_def lift_def ret_def split: sum.splits)
  from subscript_Inr[OF v(1)] obtain wd where wd: "workday = JObject wd" by blast
  with pass1(1) have wd0: "wd \<noteq> []" by simp
  from v wd have fields: "map_of wd ''rest_api_endpoint'' = Some v1"
    "map_of wd ''token_endpoint'' = Some v2" "map_of wd ''client_id'' = Some v3"
    "map_of wd ''client_secret'' = Some v4" "map_of wd ''refresh_token'' = Some v5"
    by (auto split: option.splits)
  from wd have k1: "map_of kvs ''workday'' = Some (JObject wd)"
    unfolding workday_def by (auto split: option.splits)
  from p have k2: "map_of kvs ''log_file_path'' = Some (JString p)"
    unfolding path_def by (auto split: option.splits)
  from config w' k1 wd0 k2 p0 p fields cfg show ?thesis by simp
qed

theorem startup_establishes_witness:
  "\<exists>kvs wd p. config_of workday_blank = JObject kvs
     \<and> map_of kvs ''workday'' = Some (JObject wd) \<and> wd \<noteq> []
     \<and> map_of kvs ''log_file_path'' = Some (JString p) \<and> p \<noteq> []
     \<and> map_of wd ''client_secret'' = Some (JString '''')"
proof -
  have "startup (config_of workday_blank) world_good =
     (Inr \<lparr>rest_api_endpoint = JString '''', token_endpoint = JString '''', client_id = JNull,
          client_secret = JString '''', refresh_token = JInt 0,
          log_file_path = JString ''workday.log''\<rparr>, world_good)"
    by (simp add: startup_def andthen_def lift_def ret_def TimedRotatingFileHandler_def
      required_workday_keys_def scenario_defs)
  from startup_establishes[OF this] show ?thesis by auto
qed

text \<open>
  C7 as stated fails: a configuration whose sub-fields are empty strings, \<^verbatim>\<open>null\<close> and
  \<^verbatim>\<open>0\<close> passes the validation, and these values become the settings.
\<close>

theorem startup_accepts_blank_fields:
  "fst (startup (config_of workday_blank) world_good) =
     Inr \<lparr>rest_api_endpoint = JString '''', token_endpoint = JString '''', client_id = JNull,
          client_secret = JString '''', refresh_token = JInt 0,
          log_file_path = JString ''workday.log''\<rparr>"
  by (simp add: startup_def andthen_def lift_def ret_def TimedRotatingFileHandler_def
      required_workday_keys_def scenario_defs)

text \<open>
  C8. No exception of a cycle ends the scheduler loop. When \<^verbatim>\<open>main\<close> raises an
  \<^verbatim>\<open>Exception\<close>, the turn logs \<^verbatim>\<open>Unexpected error: ...\<close>, sleeps 3600 seconds and returns;
  when \<^verbatim>\<open>main\<close> returns, the turn sleeps 3600 seconds and returns. So after any number
  \<open>n\<close> of turns the loop is still running, and it has slept 3600 seconds exactly \<open>n\<close>
  times. No signal arrives.
\<close>

theorem scheduler_loop_survives:
  assumes "signal w = None"
  shows "(\<forall>e w'. main cfg w = (Inl e, w') \<and> is_Exception e \<longrightarrow>
            scheduler_iteration cfg w =
              (Inr (), w'\<lparr>trace := trace w' @
                 [Log ERROR (TextExc ''Unexpected error: '' e), Sleep 3600]\<rparr>))
       \<and> (\<forall>w'. main cfg w = (Inr (), w') \<longrightarrow>
            scheduler_iteration cfg w = (Inr (), w'\<lparr>trace := trace w' @ [Sleep 3600]\<rparr>))
       \<and> (\<forall>n. \<exists>w' evs. scheduler_loop n cfg w = (None, w') \<and> trace w' = trace w @ evs \<and>
                 count_list evs (Sleep 3600) = n)"
proof (intro conjI allI impI)
  fix e w'
  assume "main cfg w = (Inl e, w') \<and> is_Exception e"
  then have "main cfg w = (Inl e, w')" by simp
  from scheduler_iteration_run[OF assms this]
  show "scheduler_iteration cfg w =
          (Inr (), w'\<lparr>trace := trace w' @
             [Log ERROR (TextExc ''Unexpected error: '' e), Sleep 3600]\<rparr>)" by simp
next
  fix w'
  assume "main cfg w = (Inr (), w')"
  from scheduler_iteration_run[OF assms this]
  show "scheduler_iteration cfg w = (Inr (), w'\<lparr>trace := trace w' @ [Sleep 3600]\<rparr>)" by simp
next
  fix n
  from scheduler_loop_run[OF assms, of n cfg]
  show "\<exists>w' evs. scheduler_loop n cfg w = (None, w') \<and> trace w' = trace w @ evs \<and>
          count_list evs (Sleep 3600) = n" by metis
qed

text \<open>
  The spec's test: a cycle that raises (\<^verbatim>\<open>KeyError\<close>, from a token response without
  \<^verbatim>\<open>access_token\<close>) is logged and followed by the sleep, and the loop goes on.
\<close>

theorem scheduler_loop_survives_witness:
  "scheduler_iteration demo_settings world_no_key =
     (Inr (), world_no_key
        \<lparr>trace := [token_post demo_settings,
                    Log INFO (Text ''Successfully obtained access token''),
                    Log ERROR (TextExc ''Unexpected error: '' (KeyError ''access_token'')),
                    Sleep 3600],
         calls := 1\<rparr>)
   \<and> (\<exists>w' evs. scheduler_loop 2 demo_settings world_no_key = (None, w') \<and>
         trace w' = trace world_no_key @ evs \<and> count_list evs (Sleep 3600) = 2)"
proof -
  have s: "signal world_no_key = None" by (simp add: scenario_defs)
  note a = scheduler_loop_survives[OF s, of demo_settings]
  have h: "main demo_settings world_no_key =
     (Inl (KeyError ''access_token''),
      world_no_key\<lparr>trace := [token_post demo_settings,
                               Log INFO (Text ''Successfully obtained access token'')],
                    calls := 1\<rparr>) \<and> is_Exception (KeyError ''access_token'')"
    using main_no_key by simp
  from a[THEN conjunct1, rule_format, OF h]
  have "scheduler_iteration demo_settings world_no_key =
     (Inr (), world_no_key
        \<lparr>trace := [token_post demo_settings,
                    Log INFO (Text ''Successfully obtained access token''),
                    Log ERROR (TextExc ''Unexpected error: '' (KeyError ''access_token'')),
                    Sleep 3600],
         calls := 1\<rparr>)" by simp
  moreover from a have "\<exists>w' evs. scheduler_loop 2 demo_settings world_no_key = (None, w') \<and>
         trace w' = trace world_no_key @ evs \<and> count_list evs (Sleep 3600) = 2" by blast
  ultimately show ?thesis by blast
qed

text \<open>
  C9. Once the handlers are installed, a SIGINT or SIGTERM ends the process wherever in
  the scheduler loop it is delivered: for every delivery point \<open>k\<close> and every behaviour of
  the endpoints, the loop is left by \<^verbatim>\<open>SystemExit(0)\<close>, so the exit status is 0, and the
  handler's line \<^verbatim>\<open>Received signal to terminate. Exiting gracefully...\<close> is the last thing
  the process does. What it did before that line is a beginning, at most \<open>k\<close> events long,
  of what it would have done with no signal: the cycle in flight is not completed. The
  \<^verbatim>\<open>except Exception\<close> of the loop does not catch the exit: a \<^verbatim>\<open>SystemExit\<close> that leaves
  \<^verbatim>\<open>main\<close> leaves the loop's turn unchanged, with no \<^verbatim>\<open>Unexpected error\<close> line and no
  sleep.
\<close>

theorem signal_ends_process:
  "(\<forall>c w'. main cfg w = (Inl (SystemExit c), w') \<longrightarrow>
       scheduler_iteration cfg w = (Inl (SystemExit c), w'))
   \<and> (\<forall>k n. signal w = Some k \<and> k < n \<longrightarrow>
        (\<exists>e w'. scheduler_loop n cfg w = (Some e, w') \<and> e = SystemExit 0 \<and> exit_status e = 0 \<and>
           trace w' \<noteq> [] \<and> last (trace w') = shutdown_line))
   \<and> (\<forall>k n. signal w = None \<and> k < n \<longrightarrow>
        (\<exists>w1 evs w2 pre.
           scheduler_loop n cfg w = (None, w1) \<and> trace w1 = trace w @ evs \<and>
           scheduler_loop n cfg (w\<lparr>signal := Some k\<rparr>) = (Some (SystemExit 0), w2) \<and>
           prefix pre evs \<and> length pre \<le> k \<and> trace w2 = trace w @ pre @ [shutdown_line]))"
proof -
  have p1: "scheduler_iteration cfg w = (Inl (SystemExit c), w')"
    if "main cfg w = (Inl (SystemExit c), w')" for c w'
    using that by (simp add: scheduler_iteration_def andthen_def try_except_def)
  have p2: "\<exists>e w'. scheduler_loop n cfg w = (Some e, w') \<and> e = SystemExit 0 \<and> exit_status e = 0 \<and>
           trace w' \<noteq> [] \<and> last (trace w') = shutdown_line"
    if "signal w = Some k \<and> k < n" for k n
  proof -
    from that have "signal w = Some k" "k < n" by simp_all
    from scheduler_loop_signal[OF this, of cfg] show ?thesis by auto
  qed
  have p3: "\<exists>w1 evs w2 pre.
           scheduler_loop n cfg w = (None, w1) \<and> trace w1 = trace w @ evs \<and>
           scheduler_loop n cfg (w\<lparr>signal := Some k\<rparr>) = (Some (SystemExit 0), w2) \<and>
           prefix pre evs \<and> length pre \<le> k \<and> trace w2 = trace w @ pre @ [shutdown_line]"
    if "signal w = None \<and> k < n" for k n
  proof -
    from that have "signal w = None" "k < n" by simp_all
    from scheduler_loop_cut[OF this, of cfg] show ?thesis .
  qed
  from p1 p2 p3 show ?thesis by blast
qed

text \<open>
  A signal in the middle of the first cycle, after the first failed token attempt was
  logged: the cycle stops there.
\<close>

theorem signal_ends_process_witness:
  "(\<exists>e w'. scheduler_loop 4 demo_settings world_signalled = (Some e, w') \<and> e = SystemExit 0 \<and>
      exit_status e = 0 \<and> trace w' \<noteq> [] \<and> last (trace w') = shutdown_line)
   \<and> scheduler_iteration demo_settings world_signalled =
       (Inl (SystemExit 0),
        world_signalled
          \<lparr>trace := [token_post demo_settings,
                      Log ERROR (TextExc ''Error obtaining access token: ''
                        (RequestException ''HTTPError''
                           (Some \<lparr>status_code = 503, content = ''busy'',
                                   json_result = DecodeFailsValueError\<rparr>))),
                      shutdown_line],
           calls := 1, signal := None\<rparr>)
   \<and> (\<exists>w1 evs w2 pre.
         scheduler_loop 4 demo_settings world_flaky = (None, w1) \<and>
         trace w1 = trace world_flaky @ evs \<and>
         scheduler_loop 4 demo_settings world_signalled = (Some (SystemExit 0), w2) \<and>
         prefix pre evs \<and> length pre \<le> 3 \<and> trace w2 = trace world_flaky @ pre @ [shutdown_line])"
proof -
  note t = signal_ends_process[of demo_settings world_signalled]
  note u = signal_ends_process[of demo_settings world_flaky]
  have h: "signal world_signalled = Some 3 \<and> (3::nat) < 4" by (simp add: scenario_defs)
  have g: "signal world_flaky = None \<and> (3::nat) < 4" by (simp add: scenario_defs)
  have m: "main demo_settings world_signalled =
       (Inl (SystemExit 0),
        world_signalled
          \<lparr>trace := [token_post demo_settings,
                      Log ERROR (TextExc ''Error obtaining access token: ''
                        (RequestException ''HTTPError''
                           (Some \<lparr>status_code = 503, content = ''busy'',
                                   json_result = DecodeFailsValueError\<rparr>))),
                      shutdown_line],
           calls := 1, signal := None\<rparr>)"
    by (simp add: run_defs scenario_defs token_post_def shutdown_line_def demo_settings_def)
  from u[THEN conjunct2, THEN conjunct2, rule_format, OF g]
  have "\<exists>w1 evs w2 pre.
         scheduler_loop 4 demo_settings world_flaky = (None, w1) \<and>
         trace w1 = trace world_flaky @ evs \<and>
         scheduler_loop 4 demo_settings world_signalled = (Some (SystemExit 0), w2) \<and>
         prefix pre evs \<and> length pre \<le> 3 \<and> trace w2 = trace world_flaky @ pre @ [shutdown_line]"
    by (simp add: world_signalled_def)
  with t[THEN conjunct2, THEN conjunct1, rule_format, OF h] t[THEN conjunct1, rule_format, OF m]
  show ?thesis by blast
qed

text \<open>
  C10. \<^verbatim>\<open>main\<close> decides by truthiness. When the token endpoint answers 2xx with an
  \<^verbatim>\<open>access_token\<close> that is falsy (the empty string, say), the cycle is the POST, the
  success line of \<^verbatim>\<open>get_access_token\<close> and the error \<^verbatim>\<open>Failed to obtain access token\<close>,
  with no fetch. When \<^verbatim>\<open>fetch_workday_data\<close> returns a falsy payload, the cycle ends with
  the error \<^verbatim>\<open>No data fetched from Workday\<close> and writes no payload line. No signal arrives
  during the cycle.
\<close>

theorem main_decides_by_truthiness:
  assumes "signal w = None"
  shows "(\<forall>tok. attempt_yields ''access_token'' (net w (calls w)) tok \<and> \<not> truthy tok \<longrightarrow>
            main cfg w =
              (Inr (), w\<lparr>trace := trace w @
                            [token_post cfg,
                             Log INFO (Text ''Successfully obtained access token''),
                             Log ERROR (Text ''Failed to obtain access token'')],
                          calls := Suc (calls w)\<rparr>))
       \<and> (\<forall>tok w1 data w2.
            get_access_token cfg w = (Inr tok, w1) \<and> truthy tok \<and>
            fetch_workday_data cfg tok w1 = (Inr data, w2) \<and> \<not> truthy data \<longrightarrow>
            (\<exists>evs. main cfg w = (Inr (), w2\<lparr>trace := trace w @ evs\<rparr>)
               \<and> last evs = Log ERROR (Text ''No data fetched from Workday'')
               \<and> filter is_payload_line evs = []))"
proof (intro conjI allI impI)
  fix tok
  assume h: "attempt_yields ''access_token'' (net w (calls w)) tok \<and> \<not> truthy tok"
  from get_access_token_ok[OF assms, of tok cfg] h assms
  show "main cfg w =
          (Inr (), w\<lparr>trace := trace w @
                        [token_post cfg,
                         Log INFO (Text ''Successfully obtained access token''),
                         Log ERROR (Text ''Failed to obtain access token'')],
                      calls := Suc (calls w)\<rparr>)"
    by (simp add: main_def andthen_def logger_error_run)
next
  fix tok w1 data w2
  assume h: "get_access_token cfg w = (Inr tok, w1) \<and> truthy tok \<and>
             fetch_workday_data cfg tok w1 = (Inr data, w2) \<and> \<not> truthy data"
  then have h1: "get_access_token cfg w = (Inr tok, w1)" and h2: "truthy tok"
    and h3: "fetch_workday_data cfg tok w1 = (Inr data, w2)" and h4: "\<not> truthy data"
    by simp_all
  let ?line = "Log ERROR (Text ''No data fetched from Workday'')"
  from main_after_fetch[OF assms h1 h2 h3] h4 obtain a b where
    run: "main cfg w = (Inr (), w2\<lparr>trace := trace w @ a @ b @ [?line]\<rparr>)"
    and a: "list_all token_event a" and b: "list_all fetch_event b" by auto
  have "last (a @ b @ [?line]) = ?line" by simp
  moreover have "filter is_payload_line (a @ b @ [?line]) = []"
    using token_events_quiet(2)[OF a] fetch_events_quiet(1)[OF b] by simp
  ultimately show "\<exists>evs. main cfg w = (Inr (), w2\<lparr>trace := trace w @ evs\<rparr>)
               \<and> last evs = ?line \<and> filter is_payload_line evs = []"
    using run by blast
qed

theorem main_decides_by_truthiness_witness:
  "main demo_settings world_empty_token =
     (Inr (), world_empty_token
        \<lparr>trace := trace world_empty_token @
                   [token_post demo_settings,
                    Log INFO (Text ''Successfully obtained access token''),
                    Log ERROR (Text ''Failed to obtain access token'')],
         calls := Suc (calls world_empty_token)\<rparr>)
   \<and> (\<exists>w2 evs. main demo_settings world_empty_payload =
                    (Inr (), w2\<lparr>trace := trace world_empty_payload @ evs\<rparr>)
         \<and> last evs = Log ERROR (Text ''No data fetched from Workday'')
         \<and> filter is_payload_line evs = [])"
proof
  have s: "signal world_empty_token = None" by (simp add: scenario_defs)
  have h: "attempt_yields ''access_token'' (net world_empty_token (calls world_empty_token))
             (JString '''') \<and> \<not> truthy (JString '''')"
    by (simp add: scenario_defs)
  from main_decides_by_truthiness[OF s, of demo_settings, THEN conjunct1, rule_format, OF h]
  show "main demo_settings world_empty_token =
     (Inr (), world_empty_token
        \<lparr>trace := trace world_empty_token @
                   [token_post demo_settings,
                    Log INFO (Text ''Successfully obtained access token''),
                    Log ERROR (Text ''Failed to obtain access token'')],
         calls := Suc (calls world_empty_token)\<rparr>)" .
next
  have s: "signal world_empty_payload = None" by (simp add: scenario_defs)
  have t: "truthy (JString ''t'')" "\<not> truthy (JObject [])" by simp_all
  from main_decides_by_truthiness[OF s, of demo_settings, THEN conjunct2, rule_format,
      OF conjI[OF run_empty_payload(1) conjI[OF t(1) conjI[OF run_empty_payload(2) t(2)]]]]
  show "\<exists>w2 evs. main demo_settings world_empty_payload =
                    (Inr (), w2\<lparr>trace := trace world_empty_payload @ evs\<rparr>)
         \<and> last evs = Log ERROR (Text ''No data fetched from Workday'')
         \<and> filter is_payload_line evs = []" by blast
qed

end
